theory Spec2Isabelle
  imports Main "HOL-Library.AList" "HOL-Library.Multiset"
begin

section \<open>Python strings and the dataset-name normalisation\<close>

text \<open>
  A Python \<open>str\<close> is a sequence of code points. The model covers the code points
  U+0000 to U+00FF: a \<^typ>\<open>char\<close> stands for the code point of its byte value, so that
  \<^typ>\<open>string\<close> is a Python string over Latin-1. On this range \<open>str.lower\<close> maps
  character by character, and the word characters of \<open>re\<close> (the class \<open>\w\<close> of a
  \<open>str\<close> pattern: alphanumeric in the Unicode database, or the underscore) are the
  ones listed in \<open>is_word\<close>.
\<close>

definition code_point :: "char \<Rightarrow> nat" where
  "code_point c = of_char c"

definition is_upper :: "char \<Rightarrow> bool" where
  "is_upper c = (let n = code_point c in
     (65 \<le> n \<and> n \<le> 90) \<or> (192 \<le> n \<and> n \<le> 214) \<or> (216 \<le> n \<and> n \<le> 222))"

definition lower_char :: "char \<Rightarrow> char" where
  "lower_char c = (if is_upper c then char_of (code_point c + 32) else c)"

text \<open>\<open>df_name.dataset_name.lower()\<close>\<close>

definition lower :: "string \<Rightarrow> string" where
  "lower s = map lower_char s"

definition is_word :: "char \<Rightarrow> bool" where
  "is_word c = (let n = code_point c in
     (48 \<le> n \<and> n \<le> 57) \<or> (65 \<le> n \<and> n \<le> 90) \<or> n = 95 \<or> (97 \<le> n \<and> n \<le> 122) \<or>
     n = 170 \<or> n = 178 \<or> n = 179 \<or> n = 181 \<or> n = 185 \<or> n = 186 \<or>
     (188 \<le> n \<and> n \<le> 190) \<or> (192 \<le> n \<and> n \<le> 214) \<or> (216 \<le> n \<and> n \<le> 246) \<or>
     (248 \<le> n \<and> n \<le> 255))"

text \<open>
  \<open>re.sub(r"\W+", "_", s)\<close>: scanning from the left, every maximal run of non-word
  characters is replaced by one underscore; word characters are copied.
\<close>

function sub_nonword :: "string \<Rightarrow> string" where
  "sub_nonword [] = []"
| "sub_nonword (c # cs) =
     (if is_word c then c # sub_nonword cs
      else CHR ''_'' # sub_nonword (dropWhile (\<lambda>x. \<not> is_word x) cs))"
  by pat_completeness auto
termination
  by (relation "measure length") (auto simp: less_Suc_eq_le length_dropWhile_le)

text \<open>\<open>s.strip("_")\<close>\<close>

definition strip_underscores :: "string \<Rightarrow> string" where
  "strip_underscores s =
     rev (dropWhile (\<lambda>c. c = CHR ''_'') (rev (dropWhile (\<lambda>c. c = CHR ''_'') s)))"

text \<open>
  The three lines of \<open>_store_df_info\<close> that turn the assigned name into the identifier
  \<open>df_id\<close>.
\<close>

definition clean_df_name :: "string \<Rightarrow> string" where
  "clean_df_name name = strip_underscores (sub_nonword (lower name))"

text \<open>
  The pattern \<open>^[a-z0-9_]+$\<close> of the specification, as a full match: a non-empty string
  of lower-case ASCII letters, ASCII digits and underscores.
\<close>

definition ident_char :: "char \<Rightarrow> bool" where
  "ident_char c = (let n = code_point c in
     (97 \<le> n \<and> n \<le> 122) \<or> (48 \<le> n \<and> n \<le> 57) \<or> n = 95)"

definition matches_ident :: "string \<Rightarrow> bool" where
  "matches_ident s = (s \<noteq> [] \<and> list_all ident_char s)"

definition is_ascii :: "char \<Rightarrow> bool" where
  "is_ascii c = (code_point c < 128)"

section \<open>Data model\<close>

datatype py_error =
    ValueError string
  | ValidationError string
  | IndexError
  | AttributeError
  | TypeError
  | OutputParserException
  | ServiceUnavailable

text \<open>
  A value handed to the \<open>dfs\<close> field: the validator tells lists from other values and
  data frames from other elements. The data frame itself is opaque (\<open>'df\<close>).
\<close>

datatype 'df py_obj =
    Py_DataFrame 'df
  | Py_list "'df py_obj list"
  | Py_str string
  | Py_int int
  | Py_None

fun is_DataFrame :: "'df py_obj \<Rightarrow> bool" where
  "is_DataFrame (Py_DataFrame d) = True"
| "is_DataFrame _ = False"

fun the_DataFrame :: "'df py_obj \<Rightarrow> 'df option" where
  "the_DataFrame (Py_DataFrame d) = Some d"
| "the_DataFrame _ = None"

datatype base_message =
    HumanMessage (content: string)
  | AIMessage (content: string)
  | SystemMessage (content: string)

type_synonym df_schema = "(string \<times> string) list"

text \<open>
  One value of \<open>DfMetadata\<close>: \<open>{"df_schema": ..., "df": ...}\<close>. The dictionary itself
  is an association list in insertion order; assigning to a key is \<open>AList.update\<close>, which
  overwrites the value of a key that is present and appends a new key otherwise.
\<close>

record 'df df_entry =
  entry_df_schema :: df_schema
  entry_df :: 'df

type_synonym 'df df_metadata = "(string \<times> 'df df_entry) list"

text \<open>
  Modelled from the spec: \<open>DfInfo\<close>, \<open>DashboardPlanner\<close> and \<open>vm.Dashboard\<close> are classes of
  modules that are not among the sources. \<open>DfInfo\<close> is the structured object with a
  \<open>dataset_name\<close> field; a dashboard plan has a \<open>title\<close> and an ordered sequence \<open>pages\<close> of
  page plans; a dashboard is built from a \<open>title\<close> and a list \<open>pages\<close>. Page plans
  (\<open>'pp\<close>) and built pages (\<open>'pg\<close>) are opaque.
\<close>

record df_info =
  dataset_name :: string

record 'pp dashboard_planner =
  plan_title :: string
  plan_pages :: "'pp list"

record 'pg vm_dashboard =
  dashboard_title :: string
  dashboard_pages :: "'pg list"

text \<open>The dictionary that \<open>_store_df_info\<close> passes to \<open>data_sum_chain.invoke\<close>.\<close>

record 'df df_sum_input =
  in_messages :: "base_message list"
  in_df_schema :: df_schema
  in_df_sample :: 'df
  in_current_df_names :: "df_info list"

text \<open>
  The language model, as far as \<open>_store_df_info\<close> uses it: the chain
  \<open>df_sum_prompt | llm.with_structured_output(DfInfo)\<close>, invoked on one input. It
  returns the structured object or raises.
\<close>

record 'df llm =
  data_sum_chain :: "'df df_sum_input \<Rightarrow> py_error + df_info"

text \<open>\<open>config["configurable"].get("model", None)\<close>\<close>

record 'df runnable_config =
  model :: "'df llm option"

text \<open>
  Modelled from the spec: the functions \<open>_get_df_info\<close>, \<open>_get_dashboard_plan\<close> and
  \<open>PageBuilder(...).page\<close> are imported from modules that are not among the sources.
  They are parameters of the model; each returns its result or raises.
\<close>

record ('df, 'pp, 'pg) env =
  get_df_info :: "'df \<Rightarrow> py_error + (df_schema \<times> 'df)"
  get_dashboard_plan ::
    "string \<Rightarrow> 'df llm option \<Rightarrow> 'df df_metadata \<Rightarrow> py_error + 'pp dashboard_planner"
  page_builder :: "'df llm option \<Rightarrow> 'df df_metadata \<Rightarrow> 'pp \<Rightarrow> py_error + 'pg"

record ('df, 'pp, 'pg) graph_state =
  messages :: "base_message list"
  dfs :: "'df list"
  df_metadata :: "'df df_metadata"
  dashboard_plan :: "'pp dashboard_planner option"
  pages :: "'pg list"
  dashboard :: "'pg vm_dashboard option"

text \<open>The keyword arguments of \<open>GraphState(...)\<close>; \<open>dfs\<close> is not yet validated.\<close>

record ('df, 'pp, 'pg) graph_input =
  arg_messages :: "base_message list"
  arg_dfs :: "'df py_obj"
  arg_df_metadata :: "'df df_metadata"
  arg_dashboard_plan :: "'pp dashboard_planner option"
  arg_pages :: "'pg list"
  arg_dashboard :: "'pg vm_dashboard option"

text \<open>The argument of a \<open>Send\<close>: \<open>{"page_plan": v, "df_metadata": df_metadata}\<close>.\<close>

record ('df, 'pp) build_page_state =
  page_plan :: 'pp
  bp_df_metadata :: "'df df_metadata"

section \<open>State construction\<close>

text \<open>The loop of the validator \<open>check_dataframes\<close> over the elements of \<open>v\<close>.\<close>

fun check_elements :: "'df py_obj list \<Rightarrow> py_error + unit" where
  "check_elements [] = Inr ()"
| "check_elements (x # xs) =
     (if \<not> is_DataFrame x
      then Inl (ValueError ''Each element in dfs must be a Pandas DataFrame'')
      else check_elements xs)"

fun check_dataframes :: "'df py_obj \<Rightarrow> py_error + 'df py_obj" where
  "check_dataframes (Py_list xs) =
     (case check_elements xs of Inl e \<Rightarrow> Inl e | Inr _ \<Rightarrow> Inr (Py_list xs))"
| "check_dataframes v = Inl (ValueError ''dfs must be a list'')"

text \<open>The elements of a validated list, as data frames.\<close>

fun dataframes_of :: "'df py_obj \<Rightarrow> 'df list" where
  "dataframes_of (Py_list xs) = List.map_filter the_DataFrame xs"
| "dataframes_of v = []"

text \<open>
  \<open>GraphState(**kwargs)\<close>: the only validator of the class is \<open>check_dataframes\<close> on
  \<open>dfs\<close>; a \<open>ValueError\<close> raised by a validator reaches the caller as a validation error.
  The other keyword arguments are given and of their declared types.
\<close>

definition GraphState ::
  "('df, 'pp, 'pg) graph_input \<Rightarrow> py_error + ('df, 'pp, 'pg) graph_state" where
  "GraphState a =
     (case check_dataframes (arg_dfs a) of
        Inl e \<Rightarrow> Inl (ValidationError ''dfs'')
      | Inr v \<Rightarrow> Inr \<lparr> messages = arg_messages a, dfs = dataframes_of v,
                      df_metadata = arg_df_metadata a, dashboard_plan = arg_dashboard_plan a,
                      pages = arg_pages a, dashboard = arg_dashboard a \<rparr>)"

section \<open>The stages\<close>

subsection \<open>Dataset summarizer\<close>

text \<open>
  The \<open>for\<close> loop of \<open>_store_df_info\<close>. Its state is the list \<open>current_df_names\<close> and
  the dictionary \<open>df_metadata\<close>; the argument \<open>log\<close> records the inputs of the calls of
  \<open>data_sum_chain.invoke\<close> in the order they are made, the call that raises included.
  An absent model is \<open>None\<close>, on which \<open>llm.with_structured_output\<close> raises
  \<open>AttributeError\<close>. Any exception leaves the loop at once.
\<close>

fun store_loop ::
  "('df, 'pp, 'pg) env \<Rightarrow> 'df runnable_config \<Rightarrow> base_message list \<Rightarrow> 'df list \<Rightarrow>
   df_info list \<Rightarrow> 'df df_metadata \<Rightarrow> 'df df_sum_input list \<Rightarrow>
   'df df_sum_input list \<times> (py_error + df_info list \<times> 'df df_metadata)" where
  "store_loop env config msgs [] current_df_names md log = (log, Inr (current_df_names, md))"
| "store_loop env config msgs (d # ds) current_df_names md log =
     (case get_df_info env d of
        Inl e \<Rightarrow> (log, Inl e)
      | Inr (schema, sample) \<Rightarrow>
          (case model config of
             None \<Rightarrow> (log, Inl AttributeError)
           | Some l \<Rightarrow>
               (let request = \<lparr> in_messages = msgs, in_df_schema = schema,
                                in_df_sample = sample,
                                in_current_df_names = current_df_names \<rparr>
                in case data_sum_chain l request of
                     Inl e \<Rightarrow> (log @ [request], Inl e)
                   | Inr df_name \<Rightarrow>
                       store_loop env config msgs ds (current_df_names @ [df_name])
                         (AList.update (clean_df_name (dataset_name df_name))
                            \<lparr> entry_df_schema = schema, entry_df = d \<rparr> md)
                         (log @ [request]))))"

text \<open>A node returns the dictionary of its writes; every node here writes one key.\<close>

datatype ('df, 'pp, 'pg) update =
    Set_df_metadata "'df df_metadata"
  | Set_dashboard_plan "'pp dashboard_planner"
  | Add_pages "'pg list"
  | Set_dashboard "'pg vm_dashboard"

definition store_df_info ::
  "('df, 'pp, 'pg) env \<Rightarrow> 'df runnable_config \<Rightarrow> ('df, 'pp, 'pg) graph_state \<Rightarrow>
   py_error + ('df, 'pp, 'pg) update" where
  "store_df_info env config state =
     (case snd (store_loop env config (messages state) (dfs state) [] (df_metadata state) []) of
        Inl e \<Rightarrow> Inl e
      | Inr (names, md) \<Rightarrow> Inr (Set_df_metadata md))"

subsection \<open>Dashboard planner\<close>

text \<open>
  \<open>state.messages[0].content\<close> is evaluated first and raises \<open>IndexError\<close> on an empty
  list, before the plan is requested.
\<close>

definition dashboard_plan_node ::
  "('df, 'pp, 'pg) env \<Rightarrow> 'df runnable_config \<Rightarrow> ('df, 'pp, 'pg) graph_state \<Rightarrow>
   py_error + ('df, 'pp, 'pg) update" where
  "dashboard_plan_node env config state =
     (case messages state of
        [] \<Rightarrow> Inl IndexError
      | m # _ \<Rightarrow>
          (case get_dashboard_plan env (content m) (model config) (df_metadata state) of
             Inl e \<Rightarrow> Inl e
           | Inr plan \<Rightarrow> Inr (Set_dashboard_plan plan)))"

subsection \<open>Page builder\<close>

definition build_page ::
  "('df, 'pp, 'pg) env \<Rightarrow> 'df runnable_config \<Rightarrow> ('df, 'pp) build_page_state \<Rightarrow>
   py_error + ('df, 'pp, 'pg) update" where
  "build_page env config state =
     (case page_builder env (model config) (bp_df_metadata state) (page_plan state) of
        Inl e \<Rightarrow> Inl e
      | Inr page \<Rightarrow> Inr (Add_pages [page]))"

subsection \<open>Fan-out\<close>

datatype node = N_store_df_info | N_dashboard_plan | N_build_page | N_build_dashboard

datatype ('df, 'pp) send = Send node "('df, 'pp) build_page_state"

text \<open>
  One \<open>Send\<close> per element of \<open>state.dashboard_plan.pages\<close>, in the order of that list.
  Reading \<open>pages\<close> from an unset plan raises \<open>AttributeError\<close>.
\<close>

definition continue_to_pages ::
  "('df, 'pp, 'pg) graph_state \<Rightarrow> py_error + ('df, 'pp) send list" where
  "continue_to_pages state =
     (case dashboard_plan state of
        None \<Rightarrow> Inl AttributeError
      | Some plan \<Rightarrow>
          Inr (map (\<lambda>v. Send N_build_page \<lparr> page_plan = v, bp_df_metadata = df_metadata state \<rparr>)
                 (plan_pages plan)))"

subsection \<open>Dashboard assembler\<close>

definition build_dashboard ::
  "('df, 'pp, 'pg) graph_state \<Rightarrow> py_error + ('df, 'pp, 'pg) update" where
  "build_dashboard state =
     (case dashboard_plan state of
        None \<Rightarrow> Inl AttributeError
      | Some plan \<Rightarrow>
          Inr (Set_dashboard \<lparr> dashboard_title = plan_title plan,
                               dashboard_pages = pages state \<rparr>))"

section \<open>The orchestration graph\<close>

text \<open>
  \<open>_create_and_compile_graph\<close> declares the graph and hands it to the graph library,
  which is not part of the repository and runs it in supersteps. The tasks of a
  superstep all read the state as the previous superstep left it and run
  independently; their writes are then merged into the state by the reducers of
  \<open>GraphState\<close>. A node is a task of the next superstep once if an edge leads to it
  from a node that was a task of this superstep, however many such tasks there were,
  and once more for every \<open>Send\<close> that addresses it. The run starts with the entry
  point as its only task and ends when a superstep leaves no task; an edge to \<open>END\<close>
  starts nothing.
\<close>

datatype target = To node | END

text \<open>
  What \<open>_create_and_compile_graph\<close> builds: the nodes in the order they are added, the
  edges, the conditional edges (a source node and its path function, which returns the
  \<open>Send\<close>s to issue) and the entry point. The four node names are bound to the stage
  functions by \<open>run_node\<close> below.
\<close>

record ('df, 'pp, 'pg) state_graph =
  nodes :: "node list"
  edges :: "(node \<times> target) list"
  conditional_edges ::
    "(node \<times> (('df, 'pp, 'pg) graph_state \<Rightarrow> py_error + ('df, 'pp) send list)) list"
  entry_point :: node

definition create_and_compile_graph :: "('df, 'pp, 'pg) state_graph" where
  "create_and_compile_graph =
     \<lparr> nodes = [N_store_df_info, N_dashboard_plan, N_build_page, N_build_dashboard],
       edges = [(N_store_df_info, To N_dashboard_plan),
                (N_build_page, To N_build_dashboard),
                (N_build_dashboard, END)],
       conditional_edges = [(N_dashboard_plan, continue_to_pages)],
       entry_point = N_store_df_info \<rparr>"

text \<open>
  A task of a superstep: a node triggered by an edge reads the shared state
  (\<open>Pull\<close>); a node addressed by a \<open>Send\<close> gets the argument of the \<open>Send\<close> (\<open>Push\<close>).
\<close>

datatype ('df, 'pp) task = Pull node | Push node "('df, 'pp) build_page_state"

fun task_node :: "('df, 'pp) task \<Rightarrow> node" where
  "task_node (Pull n) = n"
| "task_node (Push n arg) = n"

fun task_of_send :: "('df, 'pp) send \<Rightarrow> ('df, 'pp) task" where
  "task_of_send (Send n arg) = Push n arg"

text \<open>
  \<open>add_node\<close>: the function behind each node name. \<open>_build_page\<close> subscripts its
  argument, which a \<open>GraphState\<close> does not support; the other three read attributes,
  which the dictionary of a \<open>Send\<close> does not have.
\<close>

fun run_node ::
  "('df, 'pp, 'pg) env \<Rightarrow> 'df runnable_config \<Rightarrow> ('df, 'pp, 'pg) graph_state \<Rightarrow>
   ('df, 'pp) task \<Rightarrow> py_error + ('df, 'pp, 'pg) update" where
  "run_node env config state (Pull N_store_df_info) = store_df_info env config state"
| "run_node env config state (Pull N_dashboard_plan) = dashboard_plan_node env config state"
| "run_node env config state (Pull N_build_page) = Inl TypeError"
| "run_node env config state (Pull N_build_dashboard) = build_dashboard state"
| "run_node env config state (Push N_build_page arg) = build_page env config arg"
| "run_node env config state (Push n arg) = Inl AttributeError"

text \<open>
  The reducers of \<open>GraphState\<close>: \<open>pages\<close> is annotated with \<open>operator.add\<close>, so a write
  is appended to the list; a write to any other key replaces the value.
\<close>

fun apply_update ::
  "('df, 'pp, 'pg) graph_state \<Rightarrow> ('df, 'pp, 'pg) update \<Rightarrow> ('df, 'pp, 'pg) graph_state" where
  "apply_update s (Set_df_metadata md) = s\<lparr>df_metadata := md\<rparr>"
| "apply_update s (Set_dashboard_plan plan) = s\<lparr>dashboard_plan := Some plan\<rparr>"
| "apply_update s (Add_pages ps) = s\<lparr>pages := pages s @ ps\<rparr>"
| "apply_update s (Set_dashboard d) = s\<lparr>dashboard := Some d\<rparr>"

text \<open>
  The path functions of the conditional edges that leave node \<open>n\<close>, evaluated on the
  state as the task sees it after its own write.
\<close>

fun run_branches ::
  "(node \<times> (('df, 'pp, 'pg) graph_state \<Rightarrow> py_error + ('df, 'pp) send list)) list \<Rightarrow>
   node \<Rightarrow> ('df, 'pp, 'pg) graph_state \<Rightarrow> py_error + ('df, 'pp) send list" where
  "run_branches [] n s = Inr []"
| "run_branches ((src, path) # bs) n s =
     (if src = n
      then (case path s of
              Inl e \<Rightarrow> Inl e
            | Inr xs \<Rightarrow> (case run_branches bs n s of Inl e \<Rightarrow> Inl e | Inr ys \<Rightarrow> Inr (xs @ ys)))
      else run_branches bs n s)"

definition run_task ::
  "('df, 'pp, 'pg) env \<Rightarrow> 'df runnable_config \<Rightarrow> ('df, 'pp, 'pg) state_graph \<Rightarrow>
   ('df, 'pp, 'pg) graph_state \<Rightarrow> ('df, 'pp) task \<Rightarrow>
   py_error + ('df, 'pp, 'pg) update \<times> ('df, 'pp) send list" where
  "run_task env config g state t =
     (case run_node env config state t of
        Inl e \<Rightarrow> Inl e
      | Inr u \<Rightarrow>
          (case run_branches (conditional_edges g) (task_node t) (apply_update state u) of
             Inl e \<Rightarrow> Inl e
           | Inr sends \<Rightarrow> Inr (u, sends)))"

text \<open>
  All tasks of a superstep read the same state. If one raises, the superstep raises:
  the model reports the first failing task in task order.
\<close>

fun run_tasks ::
  "('df, 'pp, 'pg) env \<Rightarrow> 'df runnable_config \<Rightarrow> ('df, 'pp, 'pg) state_graph \<Rightarrow>
   ('df, 'pp, 'pg) graph_state \<Rightarrow> ('df, 'pp) task list \<Rightarrow>
   node \<times> py_error + (('df, 'pp, 'pg) update \<times> ('df, 'pp) send list) list" where
  "run_tasks env config g state [] = Inr []"
| "run_tasks env config g state (t # ts) =
     (case run_task env config g state t of
        Inl e \<Rightarrow> Inl (task_node t, e)
      | Inr r \<Rightarrow>
          (case run_tasks env config g state ts of
             Inl e \<Rightarrow> Inl e
           | Inr rs \<Rightarrow> Inr (r # rs)))"

text \<open>The nodes that an edge from one of the tasks just run leads to, each once.\<close>

definition triggered :: "('df, 'pp, 'pg) state_graph \<Rightarrow> ('df, 'pp) task list \<Rightarrow> node list" where
  "triggered g tasks =
     filter (\<lambda>n. \<exists>t \<in> set tasks. (task_node t, To n) \<in> set (edges g)) (nodes g)"

text \<open>
  One superstep. The writes of the tasks are merged into the state in the order
  \<open>order\<close> gives them; the model leaves this order open, so that it covers every order
  in which parallel branches may complete. Then the \<open>Send\<close>s issued and the nodes
  triggered form the tasks of the next superstep.
\<close>

definition superstep ::
  "('df, 'pp, 'pg) env \<Rightarrow> 'df runnable_config \<Rightarrow>
   (('df, 'pp, 'pg) update list \<Rightarrow> ('df, 'pp, 'pg) update list) \<Rightarrow>
   ('df, 'pp, 'pg) state_graph \<Rightarrow> ('df, 'pp, 'pg) graph_state \<Rightarrow> ('df, 'pp) task list \<Rightarrow>
   node \<times> py_error + ('df, 'pp, 'pg) graph_state \<times> ('df, 'pp) task list" where
  "superstep env config order g state tasks =
     (case run_tasks env config g state tasks of
        Inl e \<Rightarrow> Inl e
      | Inr rs \<Rightarrow>
          Inr (foldl apply_update state (order (map fst rs)),
               map task_of_send (concat (map snd rs)) @ map Pull (triggered g tasks)))"

text \<open>An order of merging is any rearrangement of the writes.\<close>

definition completion_order :: "('a list \<Rightarrow> 'a list) \<Rightarrow> bool" where
  "completion_order order = (\<forall>xs. mset (order xs) = mset xs)"

datatype outcome = Completed | Failed node py_error | Recursion_limit

text \<open>
  The result of a run: how it ended, the shared state at that point, and the tasks of
  every superstep that was started, in order.
\<close>

record ('df, 'pp, 'pg) run =
  outcome :: outcome
  final_state :: "('df, 'pp, 'pg) graph_state"
  trace :: "('df, 'pp) task list list"

text \<open>
  The loop over supersteps. It ends when no task is left; a failing task ends it with
  the state of the beginning of its superstep; the first argument bounds the number of
  supersteps, as the recursion limit of the graph library does.
\<close>

fun run_steps ::
  "nat \<Rightarrow> ('df, 'pp, 'pg) env \<Rightarrow> 'df runnable_config \<Rightarrow>
   (('df, 'pp, 'pg) update list \<Rightarrow> ('df, 'pp, 'pg) update list) \<Rightarrow>
   ('df, 'pp, 'pg) state_graph \<Rightarrow> ('df, 'pp, 'pg) graph_state \<Rightarrow> ('df, 'pp) task list \<Rightarrow>
   ('df, 'pp) task list list \<Rightarrow> ('df, 'pp, 'pg) run" where
  "run_steps n env config order g state [] tr =
     \<lparr> outcome = Completed, final_state = state, trace = tr \<rparr>"
| "run_steps 0 env config order g state (t # ts) tr =
     \<lparr> outcome = Recursion_limit, final_state = state, trace = tr \<rparr>"
| "run_steps (Suc n) env config order g state (t # ts) tr =
     (case superstep env config order g state (t # ts) of
        Inl (failed, e) \<Rightarrow>
          \<lparr> outcome = Failed failed e, final_state = state, trace = tr @ [t # ts] \<rparr>
      | Inr (state', tasks') \<Rightarrow> run_steps n env config order g state' tasks' (tr @ [t # ts]))"

text \<open>The graph is compiled and run with the default recursion limit of the library.\<close>

definition recursion_limit :: nat where
  "recursion_limit = 25"

definition run_graph ::
  "('df, 'pp, 'pg) env \<Rightarrow> 'df runnable_config \<Rightarrow>
   (('df, 'pp, 'pg) update list \<Rightarrow> ('df, 'pp, 'pg) update list) \<Rightarrow>
   ('df, 'pp, 'pg) graph_state \<Rightarrow> ('df, 'pp, 'pg) run" where
  "run_graph env config order state =
     run_steps recursion_limit env config order create_and_compile_graph state
       [Pull (entry_point (create_and_compile_graph :: ('df, 'pp, 'pg) state_graph))] []"

text \<open>
  The run entry point: the initial state is constructed from the input, then the
  graph runs from its entry point. A rejected input starts no superstep.
\<close>

definition invoke ::
  "('df, 'pp, 'pg) env \<Rightarrow> 'df runnable_config \<Rightarrow>
   (('df, 'pp, 'pg) update list \<Rightarrow> ('df, 'pp, 'pg) update list) \<Rightarrow>
   ('df, 'pp, 'pg) graph_input \<Rightarrow> py_error + ('df, 'pp, 'pg) run" where
  "invoke env config order a =
     (case GraphState a of
        Inl e \<Rightarrow> Inl e
      | Inr state \<Rightarrow> Inr (run_graph env config order state))"

text \<open>How often a node was run in a trace.\<close>

definition runs_of :: "node \<Rightarrow> ('df, 'pp) task list list \<Rightarrow> nat" where
  "runs_of n tr = length (filter (\<lambda>t. task_node t = n) (concat tr))"

text \<open>
  The pages that a write adds, and the pages that the page-build superstep adds to the
  state when its tasks delivered \<open>built\<close> (in task order) and the writes are merged in
  the order \<open>order\<close>.
\<close>

fun written_pages :: "('df, 'pp, 'pg) update \<Rightarrow> 'pg list" where
  "written_pages (Add_pages ps) = ps"
| "written_pages u = []"

definition merged_pages ::
  "(('df, 'pp, 'pg) update list \<Rightarrow> ('df, 'pp, 'pg) update list) \<Rightarrow> 'pg list \<Rightarrow> 'pg list" where
  "merged_pages order built = concat (map written_pages (order (map (\<lambda>p. Add_pages [p]) built)))"


section \<open>A deterministic completion stub\<close>

text \<open>
  Data frames, page plans and pages are strings here. The stub names a data set after
  its sample, plans one page per character of the request, and builds the page of a
  plan by prefixing it.
\<close>

definition stub_llm :: "string llm" where
  "stub_llm = \<lparr> data_sum_chain = (\<lambda>request. Inr \<lparr> dataset_name = in_df_sample request \<rparr>) \<rparr>"

definition stub_config :: "string runnable_config" where
  "stub_config = \<lparr> model = Some stub_llm \<rparr>"

definition stub_env :: "(string, string, string) env" where
  "stub_env =
     \<lparr> get_df_info = (\<lambda>d. Inr ([(''value'', ''int64'')], d)),
       get_dashboard_plan =
         (\<lambda>query m md. Inr \<lparr> plan_title = ''Report'', plan_pages = map (\<lambda>c. [c]) query \<rparr>),
       page_builder = (\<lambda>m md plan. Inr (''page '' @ plan)) \<rparr>"

text \<open>The same services, with a planner whose completion fails validation.\<close>

definition failing_plan_env :: "(string, string, string) env" where
  "failing_plan_env =
     stub_env \<lparr> get_dashboard_plan := (\<lambda>query m md. Inl OutputParserException) \<rparr>"

definition stub_input :: "string list \<Rightarrow> string py_obj list \<Rightarrow> (string, string, string) graph_input" where
  "stub_input requests ds =
     \<lparr> arg_messages = map HumanMessage requests, arg_dfs = Py_list ds, arg_df_metadata = [],
       arg_dashboard_plan = None, arg_pages = [], arg_dashboard = None \<rparr>"

definition stub_state :: "string list \<Rightarrow> string list \<Rightarrow> (string, string, string) graph_state" where
  "stub_state requests ds =
     \<lparr> messages = map HumanMessage requests, dfs = ds, df_metadata = [],
       dashboard_plan = None, pages = [], dashboard = None \<rparr>"

text \<open>The tasks that the sends of the fan-out become.\<close>

definition page_tasks :: "'df df_metadata \<Rightarrow> 'pp list \<Rightarrow> ('df, 'pp) task list" where
  "page_tasks md vs = map (\<lambda>v. Push N_build_page \<lparr> page_plan = v, bp_df_metadata = md \<rparr>) vs"

text \<open>The metadata that the stub produces for one data set named \<open>sales\<close>.\<close>

definition sales_metadata :: "string df_metadata" where
  "sales_metadata = [(''sales'', \<lparr> entry_df_schema = [(''value'', ''int64'')], entry_df = ''sales'' \<rparr>)]"

text \<open>A state of the stub run with two built pages, before the assembler.\<close>

definition assembled_state :: "(string, string, string) graph_state" where
  "assembled_state =
     \<lparr> messages = [HumanMessage ''ab''], dfs = [''sales''], df_metadata = sales_metadata,
       dashboard_plan = Some \<lparr> plan_title = ''Report'', plan_pages = [''a'', ''b''] \<rparr>,
       pages = [''page b'', ''page a''], dashboard = None \<rparr>"

text \<open>
  The two requests, and the metadata, of the stub summarizer on the data sets
  \<open>sales\<close> and \<open>costs\<close>.
\<close>

definition sales_request :: "string df_sum_input" where
  "sales_request =
     \<lparr> in_messages = [HumanMessage ''ab''], in_df_schema = [(''value'', ''int64'')],
       in_df_sample = ''sales'', in_current_df_names = [] \<rparr>"

definition costs_request :: "string df_sum_input" where
  "costs_request =
     \<lparr> in_messages = [HumanMessage ''ab''], in_df_schema = [(''value'', ''int64'')],
       in_df_sample = ''costs'', in_current_df_names = [\<lparr> dataset_name = ''sales'' \<rparr>] \<rparr>"

definition sales_costs_metadata :: "string df_metadata" where
  "sales_costs_metadata =
     [(''sales'', \<lparr> entry_df_schema = [(''value'', ''int64'')], entry_df = ''sales'' \<rparr>),
      (''costs'', \<lparr> entry_df_schema = [(''value'', ''int64'')], entry_df = ''costs'' \<rparr>)]"

section \<open>Properties of the normalisation\<close>

lemma code_point_char_of: "n < 256 \<Longrightarrow> code_point (char_of n) = n"
  by (simp add: code_point_def)

lemma lower_char_idem: "lower_char (lower_char c) = lower_char c"
proof (cases "is_upper c")
  case True
  then have n: "code_point c + 32 < 256"
    by (auto simp: is_upper_def Let_def)
  have "\<not> is_upper (char_of (code_point c + 32))"
    using True by (auto simp: is_upper_def Let_def code_point_char_of [OF n])
  then show ?thesis by (simp add: lower_char_def)
next
  case False
  then show ?thesis by (simp add: lower_char_def)
qed

lemma is_word_underscore: "is_word CHR ''_''"
  by (simp add: is_word_def code_point_def)

lemma lower_char_underscore: "lower_char CHR ''_'' = CHR ''_''"
  by (simp add: lower_char_def is_upper_def code_point_def)

lemma ident_char_underscore: "ident_char CHR ''_''"
  by (simp add: ident_char_def code_point_def)

lemma ascii_word_ident:
  assumes "is_ascii c" and "is_word (lower_char c)"
  shows "ident_char (lower_char c)"
proof (cases "is_upper c")
  case True
  with assms(1) have r: "65 \<le> code_point c \<and> code_point c \<le> 90"
    by (auto simp: is_upper_def is_ascii_def Let_def)
  then have "code_point (char_of (code_point c + 32)) = code_point c + 32"
    by (intro code_point_char_of) simp
  with r True show ?thesis
    by (simp add: lower_char_def ident_char_def Let_def)
next
  case False
  with assms show ?thesis
    by (auto simp: lower_char_def ident_char_def is_word_def is_upper_def is_ascii_def Let_def)
qed

lemma sub_nonword_chars:
  "d \<in> set (sub_nonword t) \<Longrightarrow> d = CHR ''_'' \<or> (d \<in> set t \<and> is_word d)"
proof (induction t arbitrary: d rule: sub_nonword.induct)
  case 1
  then show ?case by simp
next
  case (2 c cs)
  show ?case
  proof (cases "is_word c")
    case True
    with 2 show ?thesis by auto
  next
    case False
    with 2 show ?thesis by (auto dest: set_dropWhileD)
  qed
qed

lemma sub_nonword_id: "\<forall>d\<in>set t. is_word d \<Longrightarrow> sub_nonword t = t"
  by (induction t) auto

lemma lower_id: "\<forall>d\<in>set t. lower_char d = d \<Longrightarrow> lower t = t"
  by (simp add: lower_def map_idI)

lemma set_strip_underscores: "set (strip_underscores t) \<subseteq> set t"
  unfolding strip_underscores_def
  by (auto dest!: set_dropWhileD)

lemma dropWhile_self: "xs = [] \<or> \<not> P (hd xs) \<Longrightarrow> dropWhile P xs = xs"
  by (cases xs) auto

lemma last_dropWhile: "dropWhile P xs \<noteq> [] \<Longrightarrow> last (dropWhile P xs) = last xs"
  by (induction xs) auto

lemma strip_underscores_ends:
  assumes "strip_underscores t \<noteq> []"
  shows "hd (strip_underscores t) \<noteq> CHR ''_'' \<and> last (strip_underscores t) \<noteq> CHR ''_''"
proof -
  define P where "P = (\<lambda>c. c = CHR ''_'')"
  define u where "u = dropWhile P t"
  define w where "w = dropWhile P (rev u)"
  have res: "strip_underscores t = rev w"
    by (simp add: strip_underscores_def w_def u_def P_def)
  with assms have w: "w \<noteq> []" by simp
  then have u: "u \<noteq> []" by (auto simp: w_def)
  have "last w = last (rev u)"
    using w unfolding w_def by (rule last_dropWhile)
  also have "\<dots> = hd u" using u by (simp add: last_rev)
  finally have "hd (rev w) = hd u" using w by (simp add: hd_rev)
  moreover have "\<not> P (hd u)" using u unfolding u_def by (rule hd_dropWhile)
  moreover have "\<not> P (hd w)" using w unfolding w_def by (rule hd_dropWhile)
  moreover have "last (rev w) = hd w" using w by (simp add: last_rev)
  ultimately show ?thesis by (simp add: res P_def)
qed

lemma strip_underscores_fixed:
  assumes "t = [] \<or> (hd t \<noteq> CHR ''_'' \<and> last t \<noteq> CHR ''_'')"
  shows "strip_underscores t = t"
proof (cases "t = []")
  case True
  then show ?thesis by (simp add: strip_underscores_def)
next
  case False
  with assms have h: "hd t \<noteq> CHR ''_''" and l: "last t \<noteq> CHR ''_''" by auto
  have 1: "dropWhile (\<lambda>c. c = CHR ''_'') t = t"
    using h by (intro dropWhile_self) simp
  have "hd (rev t) \<noteq> CHR ''_''" using False l by (simp add: hd_rev)
  then have 2: "dropWhile (\<lambda>c. c = CHR ''_'') (rev t) = rev t"
    by (intro dropWhile_self) simp
  show ?thesis by (simp add: strip_underscores_def 1 2)
qed

lemma clean_df_name_chars:
  assumes "d \<in> set (clean_df_name s)"
  shows "d = CHR ''_'' \<or> (\<exists>c\<in>set s. d = lower_char c \<and> is_word d)"
proof -
  from assms have "d \<in> set (sub_nonword (lower s))"
    using set_strip_underscores by (auto simp: clean_df_name_def)
  then have "d = CHR ''_'' \<or> (d \<in> set (lower s) \<and> is_word d)"
    by (rule sub_nonword_chars)
  then show ?thesis by (auto simp: lower_def)
qed

lemma clean_df_name_word: "d \<in> set (clean_df_name s) \<Longrightarrow> is_word d \<and> lower_char d = d"
  by (auto dest!: clean_df_name_chars
      simp: is_word_underscore lower_char_underscore lower_char_idem)

lemma clean_df_name_ends:
  "clean_df_name s \<noteq> [] \<Longrightarrow>
     hd (clean_df_name s) \<noteq> CHR ''_'' \<and> last (clean_df_name s) \<noteq> CHR ''_''"
  unfolding clean_df_name_def by (rule strip_underscores_ends)

lemma clean_df_name_ascii:
  assumes "list_all is_ascii s"
  shows "list_all ident_char (clean_df_name s)"
  unfolding list_all_iff
proof
  fix d assume "d \<in> set (clean_df_name s)"
  then have "d = CHR ''_'' \<or> (\<exists>c\<in>set s. d = lower_char c \<and> is_word d)"
    by (rule clean_df_name_chars)
  with assms show "ident_char d"
    by (auto simp: list_all_iff ident_char_underscore ascii_word_ident)
qed

text \<open>
  C5. The normalisation of a data-set name (lower-casing, replacing each maximal run of
  non-word characters by one underscore, stripping underscores at both ends) is
  idempotent: normalising a normalised name changes nothing.
\<close>

theorem clean_df_name_idempotent: "clean_df_name (clean_df_name s) = clean_df_name s"
proof -
  let ?t = "clean_df_name s"
  have 1: "lower ?t = ?t"
    by (rule lower_id) (simp add: clean_df_name_word)
  have 2: "sub_nonword ?t = ?t"
    by (rule sub_nonword_id) (simp add: clean_df_name_word)
  have "clean_df_name ?t = strip_underscores ?t"
    by (simp add: clean_df_name_def [of ?t] 1 2)
  also have "\<dots> = ?t"
    by (rule strip_underscores_fixed) (use clean_df_name_ends [of s] in blast)
  finally show ?thesis .
qed

section \<open>Properties of the supersteps\<close>

lemma completion_order_single: "completion_order order \<Longrightarrow> order [u] = [u]"
  unfolding completion_order_def by (metis mset_single_iff_right)

lemma completion_order_set: "completion_order order \<Longrightarrow> set (order xs) = set xs"
  unfolding completion_order_def by (metis mset_eq_setD)

lemma mset_concat_map_cong:
  assumes "mset us = mset vs"
  shows "mset (concat (map f us)) = mset (concat (map f vs))"
proof -
  have "mset (concat (map f xs)) = sum_mset (image_mset (\<lambda>x. mset (f x)) (mset xs))" for xs
    by (induction xs) auto
  with assms show ?thesis by simp
qed



lemma triggered_store:
  "triggered create_and_compile_graph [Pull N_store_df_info] = [N_dashboard_plan]"
  by (simp add: triggered_def create_and_compile_graph_def)

lemma triggered_plan:
  "triggered create_and_compile_graph [Pull N_dashboard_plan] = []"
  by (simp add: triggered_def create_and_compile_graph_def)

lemma triggered_dashboard:
  "triggered create_and_compile_graph [Pull N_build_dashboard] = []"
  by (simp add: triggered_def create_and_compile_graph_def)

lemma triggered_pages:
  "vs \<noteq> [] \<Longrightarrow> triggered create_and_compile_graph (page_tasks md vs) = [N_build_dashboard]"
  by (cases vs) (auto simp: triggered_def create_and_compile_graph_def page_tasks_def)

lemma foldl_add_pages:
  "\<forall>u\<in>set us. \<exists>ps. u = Add_pages ps \<Longrightarrow>
     foldl apply_update st us = st\<lparr>pages := pages st @ concat (map written_pages us)\<rparr>"
  by (induction us arbitrary: st) auto


lemma mset_merged_pages:
  fixes order :: "('df, 'pp, 'pg) update list \<Rightarrow> ('df, 'pp, 'pg) update list"
  assumes "completion_order order"
  shows "mset (merged_pages order built) = mset built"
proof -
  define us :: "('df, 'pp, 'pg) update list" where "us = map (\<lambda>p. Add_pages [p]) built"
  have "mset (order us) = mset us"
    using assms by (simp add: completion_order_def)
  then have "mset (concat (map written_pages (order us))) = mset (concat (map written_pages us))"
    by (rule mset_concat_map_cong)
  moreover have "concat (map written_pages us) = built"
    unfolding us_def by (induction built) auto
  ultimately show ?thesis
    by (simp add: merged_pages_def us_def)
qed

lemma length_merged_pages:
  "completion_order order \<Longrightarrow> length (merged_pages order built) = length built"
  by (metis mset_merged_pages size_mset)

lemma run_task_store:
  "run_task env config create_and_compile_graph st (Pull N_store_df_info) =
     (case store_df_info env config st of Inl e \<Rightarrow> Inl e | Inr u \<Rightarrow> Inr (u, []))"
  by (simp add: run_task_def create_and_compile_graph_def split: sum.splits)

lemma run_task_plan:
  "run_task env config create_and_compile_graph st (Pull N_dashboard_plan) =
     (case dashboard_plan_node env config st of
        Inl e \<Rightarrow> Inl e
      | Inr u \<Rightarrow> (case continue_to_pages (apply_update st u) of
                    Inl e \<Rightarrow> Inl e | Inr sends \<Rightarrow> Inr (u, sends)))"
  by (simp add: run_task_def create_and_compile_graph_def split: sum.splits)

lemma run_task_page:
  "run_task env config create_and_compile_graph st (Push N_build_page a) =
     (case build_page env config a of Inl e \<Rightarrow> Inl e | Inr u \<Rightarrow> Inr (u, []))"
  by (simp add: run_task_def create_and_compile_graph_def split: sum.splits)

lemma run_task_dashboard:
  "run_task env config create_and_compile_graph st (Pull N_build_dashboard) =
     (case build_dashboard st of Inl e \<Rightarrow> Inl e | Inr u \<Rightarrow> Inr (u, []))"
  by (simp add: run_task_def create_and_compile_graph_def split: sum.splits)

lemma step_store:
  assumes "completion_order order"
  shows "superstep env config order create_and_compile_graph st [Pull N_store_df_info] =
     (case store_df_info env config st of
        Inl e \<Rightarrow> Inl (N_store_df_info, e)
      | Inr u \<Rightarrow> Inr (apply_update st u, [Pull N_dashboard_plan]))"
  by (simp add: superstep_def run_task_store triggered_store
      completion_order_single [OF assms] split: sum.splits)

lemma step_plan_fail:
  assumes "dashboard_plan_node env config st = Inl e"
  shows "superstep env config order create_and_compile_graph st [Pull N_dashboard_plan] =
     Inl (N_dashboard_plan, e)"
  by (simp add: superstep_def run_task_plan assms)

lemma step_plan_ok:
  assumes "completion_order order"
    and "dashboard_plan_node env config st = Inr (Set_dashboard_plan plan)"
  shows "superstep env config order create_and_compile_graph st [Pull N_dashboard_plan] =
     Inr (st\<lparr>dashboard_plan := Some plan\<rparr>, page_tasks (df_metadata st) (plan_pages plan))"
  by (simp add: superstep_def run_task_plan assms(2) triggered_plan continue_to_pages_def
      completion_order_single [OF assms(1)] page_tasks_def comp_def)

lemma run_tasks_pages_ok:
  "map (page_builder env (model config) md) vs = map Inr built \<Longrightarrow>
     run_tasks env config create_and_compile_graph st (page_tasks md vs) =
       Inr (map (\<lambda>p. (Add_pages [p], [])) built)"
proof (induction vs arbitrary: built)
  case Nil
  then show ?case by (simp add: page_tasks_def)
next
  case (Cons v vs)
  then obtain p ps where b: "built = p # ps" by (cases built) auto
  with Cons.prems have 1: "page_builder env (model config) md v = Inr p"
    and 2: "map (page_builder env (model config) md) vs = map Inr ps" by auto
  have "run_tasks env config create_and_compile_graph st (page_tasks md vs) =
          Inr (map (\<lambda>p. (Add_pages [p], [])) ps)"
    using 2 by (rule Cons.IH)
  then show ?case
    using 1 by (simp add: page_tasks_def run_task_page build_page_def b)
qed


lemma step_pages_ok:
  assumes "completion_order order" and "vs \<noteq> []"
    and "map (page_builder env (model config) md) vs = map Inr built"
  shows "superstep env config order create_and_compile_graph st (page_tasks md vs) =
     Inr (st\<lparr>pages := pages st @ merged_pages order built\<rparr>, [Pull N_build_dashboard])"
proof -
  let ?us = "map (\<lambda>p. Add_pages [p]) built :: ('a, 'b, 'c) update list"
  have "set (order ?us) = set ?us"
    using assms(1) by (rule completion_order_set)
  then have "\<forall>u\<in>set (order ?us). \<exists>ps. u = Add_pages ps" by auto
  then have "foldl apply_update st (order ?us) =
      st\<lparr>pages := pages st @ concat (map written_pages (order ?us))\<rparr>"
    by (rule foldl_add_pages)
  then show ?thesis
    by (simp add: superstep_def run_tasks_pages_ok [OF assms(3)] triggered_pages [OF assms(2)]
        merged_pages_def comp_def)
qed

lemma step_dashboard:
  assumes "completion_order order"
  shows "superstep env config order create_and_compile_graph st [Pull N_build_dashboard] =
     (case build_dashboard st of
        Inl e \<Rightarrow> Inl (N_build_dashboard, e)
      | Inr u \<Rightarrow> Inr (apply_update st u, []))"
  by (simp add: superstep_def run_task_dashboard triggered_dashboard
      completion_order_single [OF assms] split: sum.splits)

section \<open>Properties of a run\<close>

lemma run_steps_Suc:
  assumes "0 < n" and "tasks \<noteq> []"
  shows "run_steps n env config order g st tasks tr =
       (case superstep env config order g st tasks of
          Inl (failed, e) \<Rightarrow>
            \<lparr> outcome = Failed failed e, final_state = st, trace = tr @ [tasks] \<rparr>
        | Inr (st', tasks') \<Rightarrow> run_steps (n - 1) env config order g st' tasks' (tr @ [tasks]))"
proof -
  from assms obtain m t ts where n: "n = Suc m" and t: "tasks = t # ts"
    by (cases n; cases tasks) auto
  show ?thesis unfolding n t by (simp split: sum.splits prod.splits)
qed

lemma run_graph_unfold:
  "run_graph env config order st =
     run_steps 25 env config order create_and_compile_graph st [Pull N_store_df_info] []"
  by (simp add: run_graph_def recursion_limit_def create_and_compile_graph_def)

lemma page_tasks_Nil: "page_tasks md vs = [] \<longleftrightarrow> vs = []"
  by (simp add: page_tasks_def)


lemma run_plan_fails:
  assumes "completion_order order"
    and "store_df_info env config st = Inr (Set_df_metadata md)"
    and "dashboard_plan_node env config (st\<lparr>df_metadata := md\<rparr>) = Inl e"
  shows "run_graph env config order st =
     \<lparr> outcome = Failed N_dashboard_plan e, final_state = st\<lparr>df_metadata := md\<rparr>,
       trace = [[Pull N_store_df_info], [Pull N_dashboard_plan]] \<rparr>"
  by (simp add: run_graph_unfold run_steps_Suc step_store [OF assms(1)] assms(2)
      step_plan_fail [OF assms(3)])

lemma run_no_pages:
  assumes "completion_order order"
    and "store_df_info env config st = Inr (Set_df_metadata md)"
    and "dashboard_plan_node env config (st\<lparr>df_metadata := md\<rparr>) = Inr (Set_dashboard_plan plan)"
    and "plan_pages plan = []"
  shows "run_graph env config order st =
     \<lparr> outcome = Completed, final_state = st\<lparr>df_metadata := md, dashboard_plan := Some plan\<rparr>,
       trace = [[Pull N_store_df_info], [Pull N_dashboard_plan]] \<rparr>"
  by (simp add: run_graph_unfold run_steps_Suc step_store [OF assms(1)] assms(2)
      step_plan_ok [OF assms(1) assms(3)] assms(4) page_tasks_def)


lemma run_pages_ok:
  assumes "completion_order order"
    and "store_df_info env config st = Inr (Set_df_metadata md)"
    and "dashboard_plan_node env config (st\<lparr>df_metadata := md\<rparr>) = Inr (Set_dashboard_plan plan)"
    and "plan_pages plan \<noteq> []"
    and "map (page_builder env (model config) md) (plan_pages plan) = map Inr built"
  shows "run_graph env config order st =
     \<lparr> outcome = Completed,
       final_state = st\<lparr>df_metadata := md, dashboard_plan := Some plan,
         pages := pages st @ merged_pages order built,
         dashboard := Some \<lparr> dashboard_title = plan_title plan,
                              dashboard_pages = pages st @ merged_pages order built \<rparr>\<rparr>,
       trace = [[Pull N_store_df_info], [Pull N_dashboard_plan],
                page_tasks md (plan_pages plan), [Pull N_build_dashboard]] \<rparr>"
proof -
  have ne: "page_tasks md (plan_pages plan) \<noteq> []"
    using assms(4) by (simp add: page_tasks_Nil)
  show ?thesis
    by (simp add: run_graph_unfold run_steps_Suc step_store [OF assms(1)] assms(2)
      step_plan_ok [OF assms(1) assms(3)] ne
      step_pages_ok [OF assms(1) assms(4) assms(5)]
      step_dashboard [OF assms(1)] build_dashboard_def)
qed

section \<open>Properties of the summarizer loop\<close>

lemma length_alist_update: "length (AList.update k v al) \<le> Suc (length al)"
  by (induction al) auto

lemma store_loop_result:
  assumes "store_loop env config msgs ds names md log = (log', Inr (names', md'))"
  shows "\<exists>new_names new_requests.
           names' = names @ new_names \<and> log' = log @ new_requests \<and>
           length new_names = length ds \<and> length new_requests = length ds \<and>
           (\<forall>l. model config = Some l \<longrightarrow>
              map (data_sum_chain l) new_requests = map Inr new_names) \<and>
           fst ` set md' =
             fst ` set md \<union> (\<lambda>n. clean_df_name (dataset_name n)) ` set new_names \<and>
           (distinct (map fst md) \<longrightarrow> distinct (map fst md')) \<and>
           length md' \<le> length md + length ds"
  using assms
proof (induction ds arbitrary: names md log)
  case Nil
  then show ?case by simp
next
  case (Cons d ds)
  from Cons.prems obtain schema sample l df_name where
    info: "get_df_info env d = Inr (schema, sample)" and
    l: "model config = Some l" and
    ans: "data_sum_chain l \<lparr> in_messages = msgs, in_df_schema = schema,
            in_df_sample = sample, in_current_df_names = names \<rparr> = Inr df_name" and
    rest: "store_loop env config msgs ds (names @ [df_name])
             (AList.update (clean_df_name (dataset_name df_name))
                \<lparr> entry_df_schema = schema, entry_df = d \<rparr> md)
             (log @ [\<lparr> in_messages = msgs, in_df_schema = schema,
                in_df_sample = sample, in_current_df_names = names \<rparr>]) =
           (log', Inr (names', md'))"
    by (auto simp: Let_def split: sum.splits prod.splits option.splits)
  let ?request = "\<lparr> in_messages = msgs, in_df_schema = schema,
                in_df_sample = sample, in_current_df_names = names \<rparr>"
  let ?md = "AList.update (clean_df_name (dataset_name df_name))
                \<lparr> entry_df_schema = schema, entry_df = d \<rparr> md"
  from Cons.IH [OF rest] obtain new_names new_requests where
    n: "names' = (names @ [df_name]) @ new_names" and
    r: "log' = (log @ [?request]) @ new_requests" and
    ln: "length new_names = length ds" and lr: "length new_requests = length ds" and
    a: "\<forall>l. model config = Some l \<longrightarrow>
          map (data_sum_chain l) new_requests = map Inr new_names" and
    k: "fst ` set md' =
          fst ` set ?md \<union> (\<lambda>n. clean_df_name (dataset_name n)) ` set new_names" and
    dk: "distinct (map fst ?md) \<longrightarrow> distinct (map fst md')" and
    le: "length md' \<le> length ?md + length ds"
    by blast
  have "length ?md \<le> Suc (length md)" by (rule length_alist_update)
  with le have le': "length md' \<le> length md + length (d # ds)" by simp
  have dk': "distinct (map fst md) \<longrightarrow> distinct (map fst md')"
    using dk by (simp add: distinct_update)
  have k': "fst ` set md' =
      fst ` set md \<union> (\<lambda>n. clean_df_name (dataset_name n)) ` set (df_name # new_names)"
    using k by (auto simp: dom_update)
  have a': "\<forall>l. model config = Some l \<longrightarrow>
      map (data_sum_chain l) (?request # new_requests) = map Inr (df_name # new_names)"
    using a l ans by simp
  show ?case
    apply (rule exI [of _ "df_name # new_names"])
    apply (rule exI [of _ "?request # new_requests"])
    using n r ln lr a' k' dk' le' by simp
qed

lemma store_loop_log:
  assumes "store_loop env config msgs ds names md log = (log', res)"
    and "model config = Some l"
  shows "\<exists>new. log' = log @ new \<and> length new \<le> length ds \<and>
           (\<forall>i<length new.
              in_messages (new ! i) = msgs \<and>
              get_df_info env (ds ! i) = Inr (in_df_schema (new ! i), in_df_sample (new ! i)) \<and>
              (\<exists>answers. in_current_df_names (new ! i) = names @ answers \<and>
                 map (data_sum_chain l) (take i new) = map Inr answers))"
  using assms(1)
proof (induction ds arbitrary: names md log)
  case Nil
  then show ?case by simp
next
  case (Cons d ds)
  show ?case
  proof (cases "get_df_info env d")
    case (Inl e)
    with Cons.prems show ?thesis by simp
  next
    case (Inr info)
    obtain schema sample where info: "info = (schema, sample)" by (cases info)
    let ?request = "\<lparr> in_messages = msgs, in_df_schema = schema,
                in_df_sample = sample, in_current_df_names = names \<rparr>"
    have first: "in_messages ?request = msgs \<and>
        get_df_info env ((d # ds) ! 0) = Inr (in_df_schema ?request, in_df_sample ?request) \<and>
        (\<exists>answers. in_current_df_names ?request = names @ answers \<and>
           map (data_sum_chain l) (take 0 [?request]) = map Inr answers)"
      using Inr info by simp
    show ?thesis
    proof (cases "data_sum_chain l ?request")
      case (Inl e)
      with Cons.prems Inr info assms(2) have "log' = log @ [?request]"
        by (simp add: Let_def)
      then show ?thesis using first by (intro exI [of _ "[?request]"]) simp
    next
      case ans: (Inr df_name)
      let ?md = "AList.update (clean_df_name (dataset_name df_name))
                \<lparr> entry_df_schema = schema, entry_df = d \<rparr> md"
      from Cons.prems Inr info assms(2) ans
      have "store_loop env config msgs ds (names @ [df_name]) ?md (log @ [?request]) = (log', res)"
        by (simp add: Let_def)
      from Cons.IH [OF this] obtain new where
        r: "log' = (log @ [?request]) @ new" and ln: "length new \<le> length ds" and
        each: "\<forall>i<length new.
              in_messages (new ! i) = msgs \<and>
              get_df_info env (ds ! i) = Inr (in_df_schema (new ! i), in_df_sample (new ! i)) \<and>
              (\<exists>answers. in_current_df_names (new ! i) = (names @ [df_name]) @ answers \<and>
                 map (data_sum_chain l) (take i new) = map Inr answers)"
        by blast
      have "\<forall>i<length (?request # new).
              in_messages ((?request # new) ! i) = msgs \<and>
              get_df_info env ((d # ds) ! i) =
                Inr (in_df_schema ((?request # new) ! i), in_df_sample ((?request # new) ! i)) \<and>
              (\<exists>answers. in_current_df_names ((?request # new) ! i) = names @ answers \<and>
                 map (data_sum_chain l) (take i (?request # new)) = map Inr answers)"
      proof (intro allI impI)
        fix i assume i: "i < length (?request # new)"
        show "in_messages ((?request # new) ! i) = msgs \<and>
              get_df_info env ((d # ds) ! i) =
                Inr (in_df_schema ((?request # new) ! i), in_df_sample ((?request # new) ! i)) \<and>
              (\<exists>answers. in_current_df_names ((?request # new) ! i) = names @ answers \<and>
                 map (data_sum_chain l) (take i (?request # new)) = map Inr answers)"
        proof (cases i)
          case 0
          then show ?thesis using Inr info by simp
        next
          case (Suc j)
          with i have j: "j < length new" by simp
          with each obtain answers where
            1: "in_messages (new ! j) = msgs" and
            2: "get_df_info env (ds ! j) = Inr (in_df_schema (new ! j), in_df_sample (new ! j))" and
            3: "in_current_df_names (new ! j) = (names @ [df_name]) @ answers" and
            4: "map (data_sum_chain l) (take j new) = map Inr answers"
            by blast
          have "in_current_df_names (new ! j) = names @ (df_name # answers) \<and>
              map (data_sum_chain l) (take (Suc j) (?request # new)) = map Inr (df_name # answers)"
            using 3 4 ans by simp
          then show ?thesis using Suc 1 2 by auto
        qed
      qed
      then show ?thesis using r ln by (intro exI [of _ "?request # new"]) simp
    qed
  qed
qed

section \<open>The stub, evaluated\<close>

lemma stub_store_sales:
  "store_df_info stub_env stub_config (stub_state requests [''sales'']) =
     Inr (Set_df_metadata sales_metadata)"
  by (simp add: store_df_info_def stub_env_def stub_config_def stub_llm_def stub_state_def
      sales_metadata_def clean_df_name_def lower_def lower_char_def is_upper_def is_word_def
      code_point_def strip_underscores_def)

lemma stub_plan:
  "dashboard_plan_node stub_env stub_config (stub_state [q] ds \<lparr>df_metadata := md\<rparr>) =
     Inr (Set_dashboard_plan \<lparr> plan_title = ''Report'', plan_pages = map (\<lambda>c. [c]) q \<rparr>)"
  by (simp add: dashboard_plan_node_def stub_env_def stub_state_def)

lemma completion_order_rev: "completion_order rev"
  by (simp add: completion_order_def)

lemma runs_of_simps:
  "runs_of n [] = 0"
  "runs_of n (ts # tr) = length (filter (\<lambda>t. task_node t = n) ts) + runs_of n tr"
  by (simp_all add: runs_of_def)

lemma runs_of_page_tasks:
  "length (filter (\<lambda>t. task_node t = n) (page_tasks md vs)) =
     (if n = N_build_page then length vs else 0)"
  by (induction vs) (auto simp: page_tasks_def)

lemma build_page_map:
  "map (page_builder env (model config) md) vs = map Inr built \<Longrightarrow>
     map (\<lambda>v. build_page env config \<lparr> page_plan = v, bp_df_metadata = md \<rparr>) vs =
       map (\<lambda>p. Inr (Add_pages [p])) built"
  by (induction vs arbitrary: built) (auto simp: build_page_def)

text \<open>
  C1. For every dashboard plan with k page plans, k at least 1, whose page
  builds all succeed: the fan-out transition emits exactly k sends, one per element of
  the plan's pages in planner order, each carrying that page plan and the data-set
  metadata; every build task writes a one-element list that is appended to the shared
  pages; the assemble stage runs exactly once, in the superstep after the one of the k
  build tasks, on a state that holds all k contributions, whatever the order in which
  the contributions are merged.
\<close>

theorem fan_out_fan_in:
  assumes "completion_order order"
    and "store_df_info env config st = Inr (Set_df_metadata md)"
    and "dashboard_plan_node env config (st\<lparr>df_metadata := md\<rparr>) = Inr (Set_dashboard_plan plan)"
    and "plan_pages plan \<noteq> []"
    and "map (page_builder env (model config) md) (plan_pages plan) = map Inr built"
  shows "continue_to_pages (st\<lparr>df_metadata := md, dashboard_plan := Some plan\<rparr>) =
           Inr (map (\<lambda>v. Send N_build_page \<lparr> page_plan = v, bp_df_metadata = md \<rparr>)
                  (plan_pages plan)) \<and>
         map (\<lambda>v. build_page env config \<lparr> page_plan = v, bp_df_metadata = md \<rparr>) (plan_pages plan) =
           map (\<lambda>p. Inr (Add_pages [p])) built \<and>
         outcome (run_graph env config order st) = Completed \<and>
         trace (run_graph env config order st) =
           [[Pull N_store_df_info], [Pull N_dashboard_plan],
            map (\<lambda>v. Push N_build_page \<lparr> page_plan = v, bp_df_metadata = md \<rparr>) (plan_pages plan),
            [Pull N_build_dashboard]] \<and>
         runs_of N_build_page (trace (run_graph env config order st)) = length (plan_pages plan) \<and>
         runs_of N_build_dashboard (trace (run_graph env config order st)) = 1 \<and>
         pages (final_state (run_graph env config order st)) = pages st @ merged_pages order built \<and>
         mset (merged_pages order built) = mset built \<and>
         length (merged_pages order built) = length (plan_pages plan) \<and>
         dashboard (final_state (run_graph env config order st)) =
           Some \<lparr> dashboard_title = plan_title plan,
                  dashboard_pages = pages st @ merged_pages order built \<rparr>"
proof -
  have run: "run_graph env config order st =
     \<lparr> outcome = Completed,
       final_state = st\<lparr>df_metadata := md, dashboard_plan := Some plan,
         pages := pages st @ merged_pages order built,
         dashboard := Some \<lparr> dashboard_title = plan_title plan,
                              dashboard_pages = pages st @ merged_pages order built \<rparr>\<rparr>,
       trace = [[Pull N_store_df_info], [Pull N_dashboard_plan],
                page_tasks md (plan_pages plan), [Pull N_build_dashboard]] \<rparr>"
    using assms by (rule run_pages_ok)
  have sends: "continue_to_pages (st\<lparr>df_metadata := md, dashboard_plan := Some plan\<rparr>) =
           Inr (map (\<lambda>v. Send N_build_page \<lparr> page_plan = v, bp_df_metadata = md \<rparr>)
                  (plan_pages plan))"
    by (simp add: continue_to_pages_def)
  have "length built = length (plan_pages plan)"
    using assms(5) by (metis length_map)
  then have len: "length (merged_pages order built) = length (plan_pages plan)"
    using assms(1) by (simp add: length_merged_pages)
  have builds: "map (\<lambda>v. build_page env config \<lparr> page_plan = v, bp_df_metadata = md \<rparr>)
        (plan_pages plan) = map (\<lambda>p. Inr (Add_pages [p])) built"
    using assms(5) by (rule build_page_map)
  show ?thesis
    by (simp add: run sends builds len mset_merged_pages [OF assms(1)] runs_of_simps
        runs_of_page_tasks page_tasks_def [symmetric])
qed

lemma completion_order_idf: "completion_order id"
  by (simp add: completion_order_def)

lemma stub_state_simps:
  "messages (stub_state requests ds) = map HumanMessage requests"
  "dfs (stub_state requests ds) = ds"
  "df_metadata (stub_state requests ds) = []"
  "dashboard_plan (stub_state requests ds) = None"
  "pages (stub_state requests ds) = []"
  "dashboard (stub_state requests ds) = None"
  by (simp_all add: stub_state_def)

theorem fan_out_fan_in_witness:
  "completion_order (rev :: (string, string, string) update list \<Rightarrow> (string, string, string) update list) \<and>
   store_df_info stub_env stub_config (stub_state [''ab''] [''sales'']) =
     Inr (Set_df_metadata sales_metadata) \<and>
   dashboard_plan_node stub_env stub_config
       (stub_state [''ab''] [''sales''] \<lparr>df_metadata := sales_metadata\<rparr>) =
     Inr (Set_dashboard_plan \<lparr> plan_title = ''Report'', plan_pages = [''a'', ''b''] \<rparr>) \<and>
   map (page_builder stub_env (model stub_config) sales_metadata) [''a'', ''b''] =
     map Inr [''page a'', ''page b''] \<and>
   trace (run_graph stub_env stub_config rev (stub_state [''ab''] [''sales''])) =
     [[Pull N_store_df_info], [Pull N_dashboard_plan],
      [Push N_build_page \<lparr> page_plan = ''a'', bp_df_metadata = sales_metadata \<rparr>,
       Push N_build_page \<lparr> page_plan = ''b'', bp_df_metadata = sales_metadata \<rparr>],
      [Pull N_build_dashboard]] \<and>
   runs_of N_build_page (trace (run_graph stub_env stub_config rev (stub_state [''ab''] [''sales'']))) = 2 \<and>
   runs_of N_build_dashboard (trace (run_graph stub_env stub_config rev (stub_state [''ab''] [''sales'']))) = 1 \<and>
   pages (final_state (run_graph stub_env stub_config rev (stub_state [''ab''] [''sales'']))) =
     [''page b'', ''page a'']"
proof -
  let ?plan = "\<lparr> plan_title = ''Report'', plan_pages = [''a'', ''b''] \<rparr> :: string dashboard_planner"
  have h1: "completion_order (rev :: (string, string, string) update list \<Rightarrow> (string, string, string) update list)"
    by (rule completion_order_rev)
  have h2: "store_df_info stub_env stub_config (stub_state [''ab''] [''sales'']) =
     Inr (Set_df_metadata sales_metadata)"
    by (rule stub_store_sales)
  have h3: "dashboard_plan_node stub_env stub_config
       (stub_state [''ab''] [''sales''] \<lparr>df_metadata := sales_metadata\<rparr>) =
     Inr (Set_dashboard_plan ?plan)"
    by (simp add: stub_plan)
  have h4: "plan_pages ?plan \<noteq> []" by simp
  have h5: "map (page_builder stub_env (model stub_config) sales_metadata) (plan_pages ?plan) =
     map Inr [''page a'', ''page b'']"
    by (simp add: stub_env_def)
  note fan_out_fan_in [OF h1 h2 h3 h4 h5]
  then show ?thesis
    using h1 h2 h3 h5 by (simp add: merged_pages_def stub_state_simps runs_of_simps)
qed

theorem assemble_once_counterexample:
  "outcome (run_graph stub_env stub_config rev (stub_state [''''] [''sales''])) = Completed \<and>
   dashboard_plan (final_state (run_graph stub_env stub_config rev (stub_state [''''] [''sales'']))) =
     Some \<lparr> plan_title = ''Report'', plan_pages = [] \<rparr> \<and>
   runs_of N_build_dashboard
     (trace (run_graph stub_env stub_config rev (stub_state [''''] [''sales'']))) = 0"
proof -
  have "dashboard_plan_node stub_env stub_config
       (stub_state [''''] [''sales''] \<lparr>df_metadata := sales_metadata\<rparr>) =
     Inr (Set_dashboard_plan \<lparr> plan_title = ''Report'', plan_pages = [] \<rparr>)"
    by (simp add: stub_plan)
  from run_no_pages [OF completion_order_rev stub_store_sales this]
  show ?thesis by (simp add: runs_of_simps)
qed

text \<open>
  C3. If the plan has no pages, the fan-out transition emits no send, no
  build task and no assemble task is started, and the run completes right after the
  planning stage: the pages and the dashboard field are what they were at the start.
\<close>

theorem empty_plan_skips_assembly:
  assumes "completion_order order"
    and "store_df_info env config st = Inr (Set_df_metadata md)"
    and "dashboard_plan_node env config (st\<lparr>df_metadata := md\<rparr>) = Inr (Set_dashboard_plan plan)"
    and "plan_pages plan = []"
  shows "continue_to_pages (st\<lparr>df_metadata := md, dashboard_plan := Some plan\<rparr>) = Inr [] \<and>
         outcome (run_graph env config order st) = Completed \<and>
         trace (run_graph env config order st) = [[Pull N_store_df_info], [Pull N_dashboard_plan]] \<and>
         runs_of N_build_page (trace (run_graph env config order st)) = 0 \<and>
         runs_of N_build_dashboard (trace (run_graph env config order st)) = 0 \<and>
         pages (final_state (run_graph env config order st)) = pages st \<and>
         dashboard (final_state (run_graph env config order st)) = dashboard st"
  by (simp add: run_no_pages [OF assms] continue_to_pages_def assms(4) runs_of_simps)

theorem empty_plan_skips_assembly_witness:
  "completion_order (id :: (string, string, string) update list \<Rightarrow> (string, string, string) update list) \<and>
   store_df_info stub_env stub_config (stub_state [''''] [''sales'']) =
     Inr (Set_df_metadata sales_metadata) \<and>
   dashboard_plan_node stub_env stub_config
       (stub_state [''''] [''sales''] \<lparr>df_metadata := sales_metadata\<rparr>) =
     Inr (Set_dashboard_plan \<lparr> plan_title = ''Report'', plan_pages = [] \<rparr>) \<and>
   outcome (run_graph stub_env stub_config id (stub_state [''''] [''sales''])) = Completed \<and>
   runs_of N_build_dashboard
     (trace (run_graph stub_env stub_config id (stub_state [''''] [''sales'']))) = 0 \<and>
   pages (final_state (run_graph stub_env stub_config id (stub_state [''''] [''sales'']))) = []"
proof -
  let ?plan = "\<lparr> plan_title = ''Report'', plan_pages = [] \<rparr> :: string dashboard_planner"
  have h1: "completion_order (id :: (string, string, string) update list \<Rightarrow> (string, string, string) update list)"
    by (rule completion_order_idf)
  have h2: "store_df_info stub_env stub_config (stub_state [''''] [''sales'']) =
     Inr (Set_df_metadata sales_metadata)"
    by (rule stub_store_sales)
  have h3: "dashboard_plan_node stub_env stub_config
       (stub_state [''''] [''sales''] \<lparr>df_metadata := sales_metadata\<rparr>) =
     Inr (Set_dashboard_plan ?plan)"
    by (simp add: stub_plan)
  have h4: "plan_pages ?plan = []" by simp
  note empty_plan_skips_assembly [OF h1 h2 h3 h4]
  then show ?thesis
    using h1 h2 h3 by (simp add: stub_state_simps runs_of_simps)
qed

theorem empty_plan_dashboard_counterexample:
  "trace (run_graph stub_env stub_config id (stub_state [''''] [''sales''])) =
     [[Pull N_store_df_info], [Pull N_dashboard_plan]] \<and>
   outcome (run_graph stub_env stub_config id (stub_state [''''] [''sales''])) = Completed \<and>
   dashboard (final_state (run_graph stub_env stub_config id (stub_state [''''] [''sales'']))) = None"
proof -
  have "dashboard_plan_node stub_env stub_config
       (stub_state [''''] [''sales''] \<lparr>df_metadata := sales_metadata\<rparr>) =
     Inr (Set_dashboard_plan \<lparr> plan_title = ''Report'', plan_pages = [] \<rparr>)"
    by (simp add: stub_plan)
  from run_no_pages [OF completion_order_idf stub_store_sales this]
  show ?thesis by (simp add: stub_state_simps)
qed

text \<open>
  C6. If the completion service raises during the planning stage, the run aborts with
  that error in the planning stage; the state is the one the summarizer left, so the
  dashboard field is what it was at the start (unset if it was unset); no page-build
  task and no assemble task is started.
\<close>

theorem planning_failure_aborts:
  assumes "completion_order order"
    and "store_df_info env config st = Inr (Set_df_metadata md)"
    and "messages st = m # ms"
    and "get_dashboard_plan env (content m) (model config) md = Inl e"
  shows "outcome (run_graph env config order st) = Failed N_dashboard_plan e \<and>
         final_state (run_graph env config order st) = st\<lparr>df_metadata := md\<rparr> \<and>
         dashboard (final_state (run_graph env config order st)) = dashboard st \<and>
         dashboard_plan (final_state (run_graph env config order st)) = dashboard_plan st \<and>
         pages (final_state (run_graph env config order st)) = pages st \<and>
         trace (run_graph env config order st) = [[Pull N_store_df_info], [Pull N_dashboard_plan]] \<and>
         runs_of N_build_page (trace (run_graph env config order st)) = 0 \<and>
         runs_of N_build_dashboard (trace (run_graph env config order st)) = 0"
proof -
  have "dashboard_plan_node env config (st\<lparr>df_metadata := md\<rparr>) = Inl e"
    using assms(3,4) by (simp add: dashboard_plan_node_def)
  from run_plan_fails [OF assms(1,2) this]
  show ?thesis by (simp add: runs_of_simps)
qed

lemma failing_store_sales:
  "store_df_info failing_plan_env stub_config (stub_state requests [''sales'']) =
     Inr (Set_df_metadata sales_metadata)"
  by (simp add: store_df_info_def failing_plan_env_def stub_env_def stub_config_def stub_llm_def
      stub_state_def sales_metadata_def clean_df_name_def lower_def lower_char_def is_upper_def
      is_word_def code_point_def strip_underscores_def)

theorem planning_failure_aborts_witness:
  "completion_order (rev :: (string, string, string) update list \<Rightarrow> (string, string, string) update list) \<and>
   store_df_info failing_plan_env stub_config (stub_state [''ab''] [''sales'']) =
     Inr (Set_df_metadata sales_metadata) \<and>
   messages (stub_state [''ab''] [''sales'']) = [HumanMessage ''ab''] \<and>
   get_dashboard_plan failing_plan_env (content (HumanMessage ''ab'')) (model stub_config)
     sales_metadata = Inl OutputParserException \<and>
   outcome (run_graph failing_plan_env stub_config rev (stub_state [''ab''] [''sales''])) =
     Failed N_dashboard_plan OutputParserException \<and>
   dashboard (final_state (run_graph failing_plan_env stub_config rev
     (stub_state [''ab''] [''sales'']))) = None \<and>
   runs_of N_build_page (trace (run_graph failing_plan_env stub_config rev
     (stub_state [''ab''] [''sales'']))) = 0"
proof -
  have h1: "completion_order (rev :: (string, string, string) update list \<Rightarrow> (string, string, string) update list)"
    by (rule completion_order_rev)
  have h2: "store_df_info failing_plan_env stub_config (stub_state [''ab''] [''sales'']) =
     Inr (Set_df_metadata sales_metadata)"
    by (rule failing_store_sales)
  have h3: "messages (stub_state [''ab''] [''sales'']) = [HumanMessage ''ab'']"
    by (simp add: stub_state_simps)
  have h4: "get_dashboard_plan failing_plan_env (content (HumanMessage ''ab'')) (model stub_config)
     sales_metadata = Inl OutputParserException"
    by (simp add: failing_plan_env_def)
  note planning_failure_aborts [OF h1 h2 h3 h4]
  then show ?thesis
    using h1 h2 h3 h4 by (simp add: stub_state_simps runs_of_simps)
qed

section \<open>The assembler and the construction of the state\<close>

text \<open>
  C4. On a state whose dashboard plan is set, the assembler produces one dashboard whose
  title is the title of the plan and whose pages are the accumulated pages in their
  accumulated order, and its superstep sets the dashboard field of the shared state to
  it, leaving nothing to run afterwards.
\<close>

theorem build_dashboard_assembles:
  assumes "completion_order order"
    and "dashboard_plan st = Some plan"
  shows "build_dashboard st =
           Inr (Set_dashboard \<lparr> dashboard_title = plan_title plan, dashboard_pages = pages st \<rparr>) \<and>
         superstep env config order create_and_compile_graph st [Pull N_build_dashboard] =
           Inr (st\<lparr>dashboard :=
                  Some \<lparr> dashboard_title = plan_title plan, dashboard_pages = pages st \<rparr>\<rparr>, [])"
  by (simp add: step_dashboard [OF assms(1)] build_dashboard_def assms(2))

theorem build_dashboard_assembles_witness:
  "completion_order (rev :: (string, string, string) update list \<Rightarrow> (string, string, string) update list) \<and>
   dashboard_plan assembled_state = Some \<lparr> plan_title = ''Report'', plan_pages = [''a'', ''b''] \<rparr> \<and>
   build_dashboard assembled_state =
     Inr (Set_dashboard \<lparr> dashboard_title = ''Report'',
                          dashboard_pages = [''page b'', ''page a''] \<rparr>) \<and>
   superstep stub_env stub_config rev create_and_compile_graph assembled_state
       [Pull N_build_dashboard] =
     Inr (assembled_state\<lparr>dashboard :=
            Some \<lparr> dashboard_title = ''Report'',
                   dashboard_pages = [''page b'', ''page a''] \<rparr>\<rparr>, [])"
proof -
  have h1: "completion_order (rev :: (string, string, string) update list \<Rightarrow> (string, string, string) update list)"
    by (rule completion_order_rev)
  have h2: "dashboard_plan assembled_state =
      Some \<lparr> plan_title = ''Report'', plan_pages = [''a'', ''b''] \<rparr>"
    by (simp add: assembled_state_def)
  have p: "pages assembled_state = [''page b'', ''page a'']"
    by (simp add: assembled_state_def)
  note build_dashboard_assembles [OF h1 h2, of stub_env stub_config]
  then show ?thesis using h1 h2 by (simp add: p)
qed

lemma check_elements_ok: "list_all is_DataFrame xs \<Longrightarrow> check_elements xs = Inr ()"
  by (induction xs) auto

lemma check_elements_bad:
  "\<not> list_all is_DataFrame xs \<Longrightarrow>
     check_elements xs = Inl (ValueError ''Each element in dfs must be a Pandas DataFrame'')"
  by (induction xs) auto

lemma dataframes_of_list:
  "list_all is_DataFrame xs \<Longrightarrow> map Py_DataFrame (List.map_filter the_DataFrame xs) = xs"
proof (induction xs)
  case Nil
  then show ?case by (simp add: List.map_filter_simps)
next
  case (Cons x xs)
  then show ?case by (cases x) (simp_all add: List.map_filter_simps)
qed

text \<open>
  C8. If the list given for \<open>dfs\<close> has an element that is not a data frame, the
  construction of the state fails with a validation error, and so does the run, before
  any superstep; if every element is a data frame, the validator returns the list as
  it is and the constructed state holds exactly these data frames, in order.
\<close>

theorem graph_state_validates_dfs:
  assumes "arg_dfs a = Py_list xs"
  shows "((\<exists>x\<in>set xs. \<not> is_DataFrame x) \<longrightarrow>
            GraphState a = Inl (ValidationError ''dfs'') \<and>
            invoke env config order a = Inl (ValidationError ''dfs'')) \<and>
         ((\<forall>x\<in>set xs. is_DataFrame x) \<longrightarrow>
            check_dataframes (arg_dfs a) = Inr (Py_list xs) \<and>
            (\<exists>st. GraphState a = Inr st \<and> map Py_DataFrame (dfs st) = xs \<and>
                  invoke env config order a = Inr (run_graph env config order st)))"
proof (intro conjI impI)
  assume "\<exists>x\<in>set xs. \<not> is_DataFrame x"
  then have "\<not> list_all is_DataFrame xs" by (simp add: list_all_iff)
  then have "check_dataframes (arg_dfs a) =
      Inl (ValueError ''Each element in dfs must be a Pandas DataFrame'')"
    by (simp add: assms check_elements_bad)
  then show "GraphState a = Inl (ValidationError ''dfs'')"
    and "invoke env config order a = Inl (ValidationError ''dfs'')"
    by (simp_all add: GraphState_def invoke_def)
next
  assume "\<forall>x\<in>set xs. is_DataFrame x"
  then have all: "list_all is_DataFrame xs" by (simp add: list_all_iff)
  then show ok: "check_dataframes (arg_dfs a) = Inr (Py_list xs)"
    by (simp add: assms check_elements_ok)
  then show "\<exists>st. GraphState a = Inr st \<and> map Py_DataFrame (dfs st) = xs \<and>
                  invoke env config order a = Inr (run_graph env config order st)"
    using all by (simp add: GraphState_def invoke_def dataframes_of_list)
qed

theorem graph_state_validates_dfs_witness:
  "arg_dfs (stub_input [''ab''] [Py_DataFrame ''sales'', Py_str ''sales'']) =
     Py_list [Py_DataFrame ''sales'', Py_str ''sales''] \<and>
   \<not> is_DataFrame (Py_str ''sales'' :: string py_obj) \<and>
   GraphState (stub_input [''ab''] [Py_DataFrame ''sales'', Py_str ''sales'']) =
     Inl (ValidationError ''dfs'') \<and>
   invoke stub_env stub_config rev (stub_input [''ab''] [Py_DataFrame ''sales'', Py_str ''sales'']) =
     Inl (ValidationError ''dfs'') \<and>
   arg_dfs (stub_input [''ab''] [Py_DataFrame ''sales'']) = Py_list [Py_DataFrame ''sales''] \<and>
   is_DataFrame (Py_DataFrame ''sales'') \<and>
   check_dataframes (Py_list [Py_DataFrame ''sales'']) = Inr (Py_list [Py_DataFrame ''sales'']) \<and>
   GraphState (stub_input [''ab''] [Py_DataFrame ''sales'']) = Inr (stub_state [''ab''] [''sales''])"
proof -
  have h1: "arg_dfs (stub_input [''ab''] [Py_DataFrame ''sales'', Py_str ''sales'']) =
     Py_list [Py_DataFrame ''sales'', Py_str ''sales'']"
    by (simp add: stub_input_def)
  have h2: "arg_dfs (stub_input [''ab''] [Py_DataFrame ''sales'']) = Py_list [Py_DataFrame ''sales'']"
    by (simp add: stub_input_def)
  have g: "GraphState (stub_input [''ab''] [Py_DataFrame ''sales'']) = Inr (stub_state [''ab''] [''sales''])"
    by (simp add: GraphState_def stub_input_def stub_state_def List.map_filter_simps)
  from graph_state_validates_dfs [OF h1, of stub_env stub_config rev]
    graph_state_validates_dfs [OF h2, of stub_env stub_config rev]
  show ?thesis using h1 h2 g by simp
qed

section \<open>The summarizer\<close>

text \<open>
  C7. The summarizer issues its completion requests in the order of the data sets: the
  i-th request is for the i-th data set (its schema and sample), carries the messages of
  the state, and its \<open>current_df_names\<close> are exactly the names that the earlier requests
  0 to i-1 were answered with, in that order. There is one request per data set when
  the stage succeeds, and never more.
\<close>

theorem summarizer_requests_in_order:
  assumes "store_loop env config (messages st) (dfs st) [] (df_metadata st) [] = (log, res)"
    and "model config = Some l"
  shows "store_df_info env config st =
           (case res of Inl e \<Rightarrow> Inl e | Inr (names, md) \<Rightarrow> Inr (Set_df_metadata md)) \<and>
         length log \<le> length (dfs st) \<and>
         ((\<exists>r. res = Inr r) \<longrightarrow> length log = length (dfs st)) \<and>
         (\<forall>i<length log.
            in_messages (log ! i) = messages st \<and>
            get_df_info env (dfs st ! i) = Inr (in_df_schema (log ! i), in_df_sample (log ! i)) \<and>
            map (data_sum_chain l) (take i log) = map Inr (in_current_df_names (log ! i)))"
proof -
  have stage: "store_df_info env config st =
           (case res of Inl e \<Rightarrow> Inl e | Inr (names, md) \<Rightarrow> Inr (Set_df_metadata md))"
    by (simp add: store_df_info_def assms(1))
  from store_loop_log [OF assms] obtain new where
    new: "log = [] @ new" and len: "length new \<le> length (dfs st)" and
    each: "\<forall>i<length new.
              in_messages (new ! i) = messages st \<and>
              get_df_info env (dfs st ! i) = Inr (in_df_schema (new ! i), in_df_sample (new ! i)) \<and>
              (\<exists>answers. in_current_df_names (new ! i) = [] @ answers \<and>
                 map (data_sum_chain l) (take i new) = map Inr answers)"
    by blast
  have full: "(\<exists>r. res = Inr r) \<longrightarrow> length log = length (dfs st)"
  proof
    assume "\<exists>r. res = Inr r"
    then obtain names md' where "res = Inr (names, md')" by auto
    with assms(1) have "store_loop env config (messages st) (dfs st) [] (df_metadata st) [] =
        (log, Inr (names, md'))" by simp
    from store_loop_result [OF this] show "length log = length (dfs st)" by auto
  qed
  from new each have "\<forall>i<length log.
            in_messages (log ! i) = messages st \<and>
            get_df_info env (dfs st ! i) = Inr (in_df_schema (log ! i), in_df_sample (log ! i)) \<and>
            map (data_sum_chain l) (take i log) = map Inr (in_current_df_names (log ! i))"
    by auto
  with stage len new full show ?thesis by simp
qed

lemma stub_loop_sales_costs:
  "store_loop stub_env stub_config (messages (stub_state [''ab''] [''sales'', ''costs'']))
       (dfs (stub_state [''ab''] [''sales'', ''costs''])) []
       (df_metadata (stub_state [''ab''] [''sales'', ''costs''])) [] =
     ([sales_request, costs_request],
      Inr ([\<lparr> dataset_name = ''sales'' \<rparr>, \<lparr> dataset_name = ''costs'' \<rparr>], sales_costs_metadata))"
  by (simp add: stub_env_def stub_config_def stub_llm_def stub_state_def
      sales_request_def costs_request_def sales_costs_metadata_def
      clean_df_name_def lower_def lower_char_def is_upper_def
      is_word_def code_point_def strip_underscores_def)

theorem summarizer_requests_in_order_witness:
  "store_loop stub_env stub_config (messages (stub_state [''ab''] [''sales'', ''costs'']))
       (dfs (stub_state [''ab''] [''sales'', ''costs''])) []
       (df_metadata (stub_state [''ab''] [''sales'', ''costs''])) [] =
     ([sales_request, costs_request],
      Inr ([\<lparr> dataset_name = ''sales'' \<rparr>, \<lparr> dataset_name = ''costs'' \<rparr>], sales_costs_metadata)) \<and>
   model stub_config = Some stub_llm \<and>
   store_df_info stub_env stub_config (stub_state [''ab''] [''sales'', ''costs'']) =
     Inr (Set_df_metadata sales_costs_metadata) \<and>
   map (data_sum_chain stub_llm) (take 1 [sales_request, costs_request]) =
     map Inr (in_current_df_names ([sales_request, costs_request] ! 1)) \<and>
   in_current_df_names costs_request = [\<lparr> dataset_name = ''sales'' \<rparr>]"
proof -
  have h2: "model stub_config = Some stub_llm" by (simp add: stub_config_def)
  note r = summarizer_requests_in_order [OF stub_loop_sales_costs h2]
  from r have 1: "store_df_info stub_env stub_config (stub_state [''ab''] [''sales'', ''costs'']) =
     Inr (Set_df_metadata sales_costs_metadata)" by simp
  from r have "\<forall>i<length [sales_request, costs_request].
      map (data_sum_chain stub_llm) (take i [sales_request, costs_request]) =
      map Inr (in_current_df_names ([sales_request, costs_request] ! i))" by blast
  from this [rule_format, of 1] have 2: "map (data_sum_chain stub_llm) (take 1 [sales_request, costs_request]) =
     map Inr (in_current_df_names ([sales_request, costs_request] ! 1))" by simp
  have 3: "in_current_df_names costs_request = [\<lparr> dataset_name = ''sales'' \<rparr>]"
    by (simp add: costs_request_def)
  show ?thesis using stub_loop_sales_costs h2 1 2 3 by blast
qed

lemma length_distinct_keys:
  assumes "distinct (map fst md)" and "distinct (map f names)"
    and "distinct (map fst md')"
    and "fst ` set md' = fst ` set md \<union> f ` set names"
    and "fst ` set md \<inter> f ` set names = {}"
  shows "length md' = length md + length names"
proof -
  have "length md' = card (set (map fst md'))"
    using assms(3) by (metis distinct_card length_map)
  also have "\<dots> = card (set (map fst md) \<union> set (map f names))"
    using assms(4) by simp
  also have "\<dots> = card (set (map fst md)) + card (set (map f names))"
    using assms(5) by (intro card_Un_disjoint) auto
  also have "\<dots> = length md + length names"
    using assms(1,2) by (metis distinct_card length_map)
  finally show ?thesis .
qed

text \<open>
  C2. When the summarizer stage completes, the metadata holds
  the keys it had before together with the normalized identifiers of the assigned
  names, one name per data set: one entry per distinct identifier, so at most one new
  entry per data set, and exactly one per data set when the identifiers are pairwise
  distinct and new. Every identifier has no underscore at either end and consists of
  word characters that lower-casing leaves alone; it matches the pattern of
  identifiers when the assigned name is ASCII and the identifier is not empty.
\<close>

theorem summarizer_metadata_keys:
  assumes "store_loop env config (messages st) (dfs st) [] (df_metadata st) [] =
             (log, Inr (names, md'))"
  shows "store_df_info env config st = Inr (Set_df_metadata md') \<and>
         length names = length (dfs st) \<and>
         (\<forall>l. model config = Some l \<longrightarrow> map (data_sum_chain l) log = map Inr names) \<and>
         fst ` set md' =
           fst ` set (df_metadata st) \<union> (\<lambda>n. clean_df_name (dataset_name n)) ` set names \<and>
         length md' \<le> length (df_metadata st) + length (dfs st) \<and>
         (distinct (map fst (df_metadata st)) \<longrightarrow> distinct (map fst md')) \<and>
         (distinct (map fst (df_metadata st)) \<and>
          distinct (map (\<lambda>n. clean_df_name (dataset_name n)) names) \<and>
          fst ` set (df_metadata st) \<inter> (\<lambda>n. clean_df_name (dataset_name n)) ` set names = {} \<longrightarrow>
            length md' = length (df_metadata st) + length (dfs st)) \<and>
         (\<forall>n\<in>set names.
            (clean_df_name (dataset_name n) = [] \<or>
             hd (clean_df_name (dataset_name n)) \<noteq> CHR ''_'' \<and>
             last (clean_df_name (dataset_name n)) \<noteq> CHR ''_'') \<and>
            (\<forall>c\<in>set (clean_df_name (dataset_name n)). is_word c \<and> lower_char c = c) \<and>
            (list_all is_ascii (dataset_name n) \<and> clean_df_name (dataset_name n) \<noteq> [] \<longrightarrow>
               matches_ident (clean_df_name (dataset_name n))))"
proof -
  let ?id = "\<lambda>n. clean_df_name (dataset_name n)"
  from store_loop_result [OF assms] have
    n: "length names = length (dfs st)" and
    a: "\<forall>l. model config = Some l \<longrightarrow> map (data_sum_chain l) log = map Inr names" and
    k: "fst ` set md' = fst ` set (df_metadata st) \<union> ?id ` set names" and
    d: "distinct (map fst (df_metadata st)) \<longrightarrow> distinct (map fst md')" and
    le: "length md' \<le> length (df_metadata st) + length (dfs st)"
    by auto
  have stage: "store_df_info env config st = Inr (Set_df_metadata md')"
    by (simp add: store_df_info_def assms)
  have exact: "distinct (map fst (df_metadata st)) \<and> distinct (map ?id names) \<and>
          fst ` set (df_metadata st) \<inter> ?id ` set names = {} \<longrightarrow>
            length md' = length (df_metadata st) + length (dfs st)"
    using length_distinct_keys [of "df_metadata st" ?id names md'] d k n by auto
  have keys: "\<forall>n\<in>set names.
            (?id n = [] \<or> hd (?id n) \<noteq> CHR ''_'' \<and> last (?id n) \<noteq> CHR ''_'') \<and>
            (\<forall>c\<in>set (?id n). is_word c \<and> lower_char c = c) \<and>
            (list_all is_ascii (dataset_name n) \<and> ?id n \<noteq> [] \<longrightarrow> matches_ident (?id n))"
    using clean_df_name_ends clean_df_name_word
    by (auto simp: matches_ident_def clean_df_name_ascii)
  from stage n a k le d exact keys show ?thesis by blast
qed

theorem summarizer_metadata_keys_witness:
  "store_loop stub_env stub_config (messages (stub_state [''ab''] [''sales'', ''costs'']))
       (dfs (stub_state [''ab''] [''sales'', ''costs''])) []
       (df_metadata (stub_state [''ab''] [''sales'', ''costs''])) [] =
     ([sales_request, costs_request],
      Inr ([\<lparr> dataset_name = ''sales'' \<rparr>, \<lparr> dataset_name = ''costs'' \<rparr>], sales_costs_metadata)) \<and>
   store_df_info stub_env stub_config (stub_state [''ab''] [''sales'', ''costs'']) =
     Inr (Set_df_metadata sales_costs_metadata) \<and>
   map fst sales_costs_metadata = [''sales'', ''costs''] \<and>
   length sales_costs_metadata = length (dfs (stub_state [''ab''] [''sales'', ''costs'']))"
proof -
  note r = summarizer_metadata_keys [OF stub_loop_sales_costs]
  from r have 1: "store_df_info stub_env stub_config (stub_state [''ab''] [''sales'', ''costs'']) =
     Inr (Set_df_metadata sales_costs_metadata)" by blast
  have 2: "map fst sales_costs_metadata = [''sales'', ''costs'']"
    by (simp add: sales_costs_metadata_def)
  have 3: "length sales_costs_metadata = length (dfs (stub_state [''ab''] [''sales'', ''costs'']))"
    by (simp add: sales_costs_metadata_def stub_state_simps)
  show ?thesis using stub_loop_sales_costs 1 2 3 by blast
qed

theorem summarizer_keys_counterexample:
  "store_df_info stub_env stub_config
     (stub_state [''ab'']
        [''Sales 2020!'', ''sales_2020'', ''!!'', [CHR 0x43, CHR 0x61, CHR 0x66, CHR 0xE9]]) =
   Inr (Set_df_metadata
     [(''sales_2020'', \<lparr> entry_df_schema = [(''value'', ''int64'')], entry_df = ''sales_2020'' \<rparr>),
      ('''', \<lparr> entry_df_schema = [(''value'', ''int64'')], entry_df = ''!!'' \<rparr>),
      ([CHR 0x63, CHR 0x61, CHR 0x66, CHR 0xE9],
       \<lparr> entry_df_schema = [(''value'', ''int64'')],
         entry_df = [CHR 0x43, CHR 0x61, CHR 0x66, CHR 0xE9] \<rparr>)]) \<and>
   \<not> matches_ident '''' \<and>
   \<not> matches_ident [CHR 0x63, CHR 0x61, CHR 0x66, CHR 0xE9]"
  by code_simp

section \<open>Determinism and the empty conversation\<close>







text \<open>
  C10. The construction of the state accepts an empty list of messages (it validates
  \<open>dfs\<close> only). The planner reads the content of the first message: with no message it
  raises \<open>IndexError\<close> before it asks for a plan, with a first message it asks for the
  plan of that message's content. A run started with no messages whose summarizer stage
  succeeds therefore fails in the planning stage with \<open>IndexError\<close>, after two
  supersteps.
\<close>

theorem empty_messages_fail_in_planner:
  assumes "completion_order order"
    and "arg_messages a = []" and "arg_dfs a = Py_list xs" and "list_all is_DataFrame xs"
  shows "(\<exists>st. GraphState a = Inr st \<and> messages st = [] \<and>
            (\<forall>md. store_df_info env config st = Inr (Set_df_metadata md) \<longrightarrow>
               invoke env config order a =
                 Inr \<lparr> outcome = Failed N_dashboard_plan IndexError,
                       final_state = st\<lparr>df_metadata := md\<rparr>,
                       trace = [[Pull N_store_df_info], [Pull N_dashboard_plan]] \<rparr>)) \<and>
         (\<forall>s. messages s = [] \<longrightarrow> dashboard_plan_node env config s = Inl IndexError) \<and>
         (\<forall>s m ms. messages s = m # ms \<longrightarrow>
            dashboard_plan_node env config s =
              (case get_dashboard_plan env (content m) (model config) (df_metadata s) of
                 Inl e \<Rightarrow> Inl e
               | Inr plan \<Rightarrow> Inr (Set_dashboard_plan plan)))"
proof -
  let ?st = "\<lparr> messages = [], dfs = dataframes_of (Py_list xs),
               df_metadata = arg_df_metadata a, dashboard_plan = arg_dashboard_plan a,
               pages = arg_pages a, dashboard = arg_dashboard a \<rparr>"
  have g: "GraphState a = Inr ?st"
    using assms(2-4) by (simp add: GraphState_def check_elements_ok)
  have run: "invoke env config order a =
                 Inr \<lparr> outcome = Failed N_dashboard_plan IndexError,
                       final_state = ?st\<lparr>df_metadata := md\<rparr>,
                       trace = [[Pull N_store_df_info], [Pull N_dashboard_plan]] \<rparr>"
    if store: "store_df_info env config ?st = Inr (Set_df_metadata md)" for md
  proof -
    have "dashboard_plan_node env config (?st\<lparr>df_metadata := md\<rparr>) = Inl IndexError"
      by (simp add: dashboard_plan_node_def)
    from run_plan_fails [OF assms(1) store this] show ?thesis
      by (simp add: invoke_def g)
  qed
  have 1: "\<exists>st. GraphState a = Inr st \<and> messages st = [] \<and>
            (\<forall>md. store_df_info env config st = Inr (Set_df_metadata md) \<longrightarrow>
               invoke env config order a =
                 Inr \<lparr> outcome = Failed N_dashboard_plan IndexError,
                       final_state = st\<lparr>df_metadata := md\<rparr>,
                       trace = [[Pull N_store_df_info], [Pull N_dashboard_plan]] \<rparr>)"
    using g run by (intro exI [of _ ?st]) simp
  have 2: "\<forall>s. messages s = [] \<longrightarrow> dashboard_plan_node env config s = Inl IndexError"
    by (simp add: dashboard_plan_node_def)
  have 3: "\<forall>s m ms. messages s = m # ms \<longrightarrow>
            dashboard_plan_node env config s =
              (case get_dashboard_plan env (content m) (model config) (df_metadata s) of
                 Inl e \<Rightarrow> Inl e
               | Inr plan \<Rightarrow> Inr (Set_dashboard_plan plan))"
    by (simp add: dashboard_plan_node_def)
  from 1 2 3 show ?thesis by blast
qed

theorem empty_messages_fail_in_planner_witness:
  "completion_order (rev :: (string, string, string) update list \<Rightarrow> (string, string, string) update list) \<and>
   arg_messages (stub_input [] [Py_DataFrame ''sales'']) = [] \<and>
   arg_dfs (stub_input [] [Py_DataFrame ''sales'']) = Py_list [Py_DataFrame ''sales''] \<and>
   list_all is_DataFrame [Py_DataFrame ''sales'' :: string py_obj] \<and>
   GraphState (stub_input [] [Py_DataFrame ''sales'']) = Inr (stub_state [] [''sales'']) \<and>
   store_df_info stub_env stub_config (stub_state [] [''sales'']) =
     Inr (Set_df_metadata sales_metadata) \<and>
   invoke stub_env stub_config rev (stub_input [] [Py_DataFrame ''sales'']) =
     Inr \<lparr> outcome = Failed N_dashboard_plan IndexError,
           final_state = stub_state [] [''sales''] \<lparr>df_metadata := sales_metadata\<rparr>,
           trace = [[Pull N_store_df_info], [Pull N_dashboard_plan]] \<rparr>"
proof -
  have h1: "completion_order (rev :: (string, string, string) update list \<Rightarrow> (string, string, string) update list)"
    by (rule completion_order_rev)
  have h2: "arg_messages (stub_input [] [Py_DataFrame ''sales'']) = []"
    by (simp add: stub_input_def)
  have h3: "arg_dfs (stub_input [] [Py_DataFrame ''sales'']) = Py_list [Py_DataFrame ''sales'']"
    by (simp add: stub_input_def)
  have h4: "list_all is_DataFrame [Py_DataFrame ''sales'' :: string py_obj]" by simp
  have g: "GraphState (stub_input [] [Py_DataFrame ''sales'']) = Inr (stub_state [] [''sales''])"
    by (simp add: GraphState_def stub_input_def stub_state_def List.map_filter_simps)
  have s: "store_df_info stub_env stub_config (stub_state [] [''sales'']) =
     Inr (Set_df_metadata sales_metadata)"
    by (rule stub_store_sales)
  from empty_messages_fail_in_planner [OF h1 h2 h3 h4, of stub_env stub_config]
  have "invoke stub_env stub_config rev (stub_input [] [Py_DataFrame ''sales'']) =
     Inr \<lparr> outcome = Failed N_dashboard_plan IndexError,
           final_state = stub_state [] [''sales''] \<lparr>df_metadata := sales_metadata\<rparr>,
           trace = [[Pull N_store_df_info], [Pull N_dashboard_plan]] \<rparr>"
    using g s by auto
  then show ?thesis using h1 h2 h3 h4 g s by blast
qed

end
